theory Spec2Isabelle
  imports Complex_Main "HOL-Library.Sublist" "HOL-Library.Multiset"
begin

section \<open>Strings of the plugin\<close>

text \<open>
  The plugin is TypeScript: a string is a sequence of UTF-16 code units, and \<open>length\<close>,
  \<open>substring\<close>, \<open>padEnd\<close>, \<open>split\<close> and the regular expressions of the source all count
  and match code units. A string is therefore a list of code units, each a natural number.
  \<open>ascii\<close> turns an Isabelle string literal into such a list.
\<close>

type_synonym ustring = "nat list"

definition ascii :: "string \<Rightarrow> ustring" where
  "ascii s = map of_char s"

text \<open>\<open>\d\<close> and \<open>[0-9]\<close> of the regular expressions: the ten ASCII digits.\<close>

definition isDigit :: "nat \<Rightarrow> bool" where
  "isDigit c = (48 \<le> c \<and> c \<le> 57)"

text \<open>
  White space and line terminators of ECMAScript, as \<open>String.prototype.trim\<close> and
  \<open>parseInt\<close> strip them: TAB, LF, VT, FF, CR, SP, NBSP, U+1680, U+2000..U+200A,
  U+2028, U+2029, U+202F, U+205F, U+3000 and U+FEFF.
\<close>

definition isWhiteSpace :: "nat \<Rightarrow> bool" where
  "isWhiteSpace c = (c \<in> {9, 10, 11, 12, 13, 32, 160, 5760, 8232, 8233, 8239, 8287, 12288, 65279}
     \<or> (8192 \<le> c \<and> c \<le> 8202))"

definition trim :: "ustring \<Rightarrow> ustring" where
  "trim s = rev (dropWhile isWhiteSpace (rev (dropWhile isWhiteSpace s)))"

text \<open>The decimal rendering of a number in a template literal (\<open>${n}\<close>), for integers.\<close>

fun decimal :: "nat \<Rightarrow> ustring" where
  "decimal n = (if n < 10 then [48 + n] else decimal (n div 10) @ [48 + n mod 10])"

declare decimal.simps [simp del]

definition showInt :: "int \<Rightarrow> ustring" where
  "showInt i = (if i < 0 then 45 # decimal (nat (- i)) else decimal (nat i))"

section \<open>parseInt\<close>

text \<open>
  \<open>parseInt(s)\<close> with no radix: leading white space is skipped, one sign is read, a
  \<open>0x\<close> or \<open>0X\<close> prefix selects radix 16, and the longest prefix of digits of the radix
  is the number. Whatever follows the digits is ignored. No digit at all gives \<open>NaN\<close>,
  which is \<open>None\<close> here. The source compares the result with 1 and 65535 only, and
  every integer up to 65535 is exact as a double, so the mathematical integer stands for
  the double.
\<close>

definition digitValue :: "nat \<Rightarrow> nat" where
  "digitValue c = (if 48 \<le> c \<and> c \<le> 57 then c - 48
                   else if 97 \<le> c \<and> c \<le> 122 then c - 87
                   else if 65 \<le> c \<and> c \<le> 90 then c - 55
                   else 36)"

definition isRadixDigit :: "nat \<Rightarrow> nat \<Rightarrow> bool" where
  "isRadixDigit R c = (digitValue c < R)"

definition radixValue :: "nat \<Rightarrow> ustring \<Rightarrow> nat" where
  "radixValue R Z = foldl (\<lambda>acc c. acc * R + digitValue c) 0 Z"

definition parseInt :: "ustring \<Rightarrow> int option" where
  "parseInt inputString =
     (let S = dropWhile isWhiteSpace inputString;
          sign = (if S \<noteq> [] \<and> hd S = 45 then (-1::int) else 1);
          S1 = (if S \<noteq> [] \<and> (hd S = 43 \<or> hd S = 45) then tl S else S);
          hex = (2 \<le> length S1 \<and> hd S1 = 48 \<and> (hd (tl S1) = 120 \<or> hd (tl S1) = 88));
          R = (if hex then 16 else 10);
          S2 = (if hex then drop 2 S1 else S1);
          Z = takeWhile (isRadixDigit R) S2
      in if Z = [] then None else Some (sign * int (radixValue R Z)))"

section \<open>The address parser\<close>

record address =
  host :: ustring
  port :: int

text \<open>
  The source throws plain \<open>Error\<close> objects; the two kinds the spec names are told apart
  by their message. \<open>InvalidAddress input\<close> is the error of \<open>parseAddress\<close>, whose
  message embeds the input; \<open>QueryFailed m\<close> is the error of \<open>queryServer\<close>, whose
  message embeds \<open>m\<close>.
\<close>

datatype error = InvalidAddress ustring | QueryFailed ustring

text \<open>\<open>input.replace(/^(http|https|udp|tcp):\/\//, '')\<close>\<close>

definition stripScheme :: "ustring \<Rightarrow> ustring" where
  "stripScheme input =
     (if prefix (ascii ''http://'') input then drop 7 input
      else if prefix (ascii ''https://'') input then drop 8 input
      else if prefix (ascii ''udp://'') input then drop 6 input
      else if prefix (ascii ''tcp://'') input then drop 6 input
      else input)"

text \<open>
  \<open>address.match(/^\[([^\]]+)\](?::(\d+))?$/)\<close>: an opening bracket, one or more code
  units other than the closing bracket, the closing bracket, and then either the end of
  the string or a colon and one or more digits. The result is the pair of the two groups,
  the second one absent when there is no port.
\<close>

definition matchBracketed :: "ustring \<Rightarrow> (ustring \<times> ustring option) option" where
  "matchBracketed a =
     (case a of
        [] \<Rightarrow> None
      | c # rest \<Rightarrow>
          if c \<noteq> 91 then None
          else let h = takeWhile (\<lambda>x. x \<noteq> 93) rest;
                   after = dropWhile (\<lambda>x. x \<noteq> 93) rest
               in if h = [] then None
                  else (case after of
                          [] \<Rightarrow> None
                        | _ # tail \<Rightarrow>
                            (case tail of
                               [] \<Rightarrow> Some (h, None)
                             | d # ds \<Rightarrow>
                                 if d = 58 \<and> ds \<noteq> [] \<and> list_all isDigit ds
                                 then Some (h, Some ds) else None)))"

text \<open>\<open>s.split(sep)\<close> for a separator of one code unit. The result is never empty.\<close>

fun split :: "nat \<Rightarrow> ustring \<Rightarrow> ustring list" where
  "split sep [] = [[]]"
| "split sep (c # cs) =
     (if c = sep then [] # split sep cs
      else (case split sep cs of [] \<Rightarrow> [[c]] | p # ps \<Rightarrow> (c # p) # ps))"

text \<open>The bracketed branch of \<open>parseAddress\<close>: it returns, or falls through (\<open>None\<close>).\<close>

definition parseBracketed :: "ustring \<Rightarrow> address option" where
  "parseBracketed a =
     (if 91 \<in> set a then
        (case matchBracketed a of
           None \<Rightarrow> None
         | Some (h, m2) \<Rightarrow>
             (case (case m2 of None \<Rightarrow> Some 27015 | Some ds \<Rightarrow> parseInt ds) of
                None \<Rightarrow> None
              | Some p \<Rightarrow> if 1 \<le> p \<and> p \<le> 65535 then Some \<lparr>host = h, port = p\<rparr> else None))
      else None)"

definition parseAddress :: "ustring \<Rightarrow> error + address" where
  "parseAddress input =
     (let a = stripScheme input in
      case parseBracketed a of
        Some r \<Rightarrow> Inr r
      | None \<Rightarrow>
          (let parts = split 58 a in
           if length parts = 2 then
             (case parseInt (parts ! 1) of
                None \<Rightarrow> Inl (InvalidAddress input)
              | Some p \<Rightarrow>
                  if 1 \<le> p \<and> p \<le> 65535 then Inr \<lparr>host = parts ! 0, port = p\<rparr>
                  else Inl (InvalidAddress input))
           else if length parts = 1 then Inr \<lparr>host = parts ! 0, port = 27015\<rparr>
           else Inl (InvalidAddress input)))"

text \<open>The message of each error, as the source builds it with a template literal.\<close>

definition invalidAddressPrefix :: ustring where
  "invalidAddressPrefix = [26080, 25928, 30340, 22320, 22336, 26684, 24335, 58, 32]"

definition invalidAddressSuffix :: ustring where
  "invalidAddressSuffix = [10, 27491, 30830, 26684, 24335, 58, 32, 91, 22320, 22336, 93, 58,
     91, 31471, 21475, 93, 32, 25110, 32, 91, 22320, 22336, 93]"

definition queryFailedPrefix :: ustring where
  "queryFailedPrefix = [26080, 27861, 36830, 25509, 21040, 26381, 21153, 22120, 58, 32]"

fun message :: "error \<Rightarrow> ustring" where
  "message (InvalidAddress input) = invalidAddressPrefix @ input @ invalidAddressSuffix"
| "message (QueryFailed m) = queryFailedPrefix @ m"

section \<open>Configuration and query results\<close>

text \<open>
  The options of \<open>Config\<close> that the modelled functions read. \<open>retryCount\<close> and
  \<open>maxPlayers\<close> are numbers that the schema only bounds (\<open>min(0).max(5)\<close> and
  \<open>min(0).max(100)\<close>): a value such as 1.5 passes, so they are rationals here.
\<close>

record config =
  timeout :: int
  cacheTime :: int
  maxPlayers :: rat
  retryCount :: rat
  generateImage :: bool
  serverList :: "ustring list"
  scheduleEnabled :: bool
  scheduleInterval :: int
  scheduleStartTime :: ustring
  scheduleEndTime :: ustring
  scheduleGroups :: "ustring list"

text \<open>
  What the query library returns is opaque to the plugin, which reads fields of it with
  optional chaining. The fields read by the modelled functions are kept, each optional;
  \<open>server_name\<close> is the \<open>name\<close> of the result, \<open>name\<close> the one of a player.
\<close>

record player =
  name :: "ustring option"

record server_result =
  server_name :: "ustring option"
  players :: "player list option"
  maxplayers :: "int option"

record query_data =
  game :: ustring
  result :: server_result

record cache_entry =
  timestamp :: int
  data :: query_data

section \<open>Text utilities\<close>

definition unknownName :: ustring where
  "unknownName = [26410, 30693]"

definition unknownError :: ustring where
  "unknownError = [26410, 30693, 38169, 35823]"

definition ellipsis :: ustring where
  "ellipsis = ascii ''...''"

text \<open>\<open>s.replace(/\^[0-9]/g, '')\<close>: one pass from the left, matches do not overlap.\<close>

fun stripColorCodes :: "ustring \<Rightarrow> ustring" where
  "stripColorCodes (c # d # r) =
     (if c = 94 \<and> isDigit d then stripColorCodes r else c # stripColorCodes (d # r))"
| "stripColorCodes r = r"

text \<open>
  \<open>cleanName\<close>: a missing or empty name is falsy and gives the fixed text; otherwise the
  colour codes and the control characters U+0000..U+001F go, and the rest is trimmed.
\<close>

definition cleanName :: "ustring option \<Rightarrow> ustring" where
  "cleanName n =
     (case n of
        None \<Rightarrow> unknownName
      | Some s \<Rightarrow> if s = [] then unknownName
                  else trim (filter (\<lambda>c. \<not> c \<le> 31) (stripColorCodes s)))"

definition truncateText :: "ustring \<Rightarrow> nat \<Rightarrow> ustring" where
  "truncateText t maxLength =
     (if length t > maxLength then take maxLength t @ ellipsis else t)"

definition padEnd :: "nat \<Rightarrow> nat \<Rightarrow> ustring \<Rightarrow> ustring" where
  "padEnd targetLength fill s = s @ replicate (targetLength - length s) fill"

definition padStart :: "nat \<Rightarrow> nat \<Rightarrow> ustring \<Rightarrow> ustring" where
  "padStart targetLength fill s = replicate (targetLength - length s) fill @ s"

section \<open>The query cache and the retry loop\<close>

text \<open>
  \<open>queryServer\<close> reads the clock, reads and writes the cache, calls the query library and
  sleeps. The world it runs in is explicit: the cache, a clock in milliseconds, the number
  of calls made to the query library so far, and the trace of the calls and sleeps. The
  query library is the environment \<open>env\<close>: its \<open>n\<close>-th call takes \<open>took\<close> milliseconds
  and either throws an error with a message (\<open>Inl\<close>) or returns a result (\<open>Inr\<close>).
  An error with no message reads as one with the empty message: \<open>||\<close> treats both alike.
  A sleep of \<open>setTimeout(resolve, 1000)\<close> advances the clock by the 1000 it asks for.
\<close>

datatype event = Query ustring int int | Sleep int

record attempt =
  took :: int
  outcome :: "ustring + server_result"

record world =
  cache :: "ustring \<rightharpoonup> cache_entry"
  clock :: int
  calls :: nat
  trace :: "event list"

definition cacheKeyOf :: "ustring \<Rightarrow> int \<Rightarrow> ustring" where
  "cacheKeyOf h p = h @ 58 # showInt p"

text \<open>One call of \<open>ctx.gamedig.query\<close>: the world after it, and what it gave.\<close>

definition gamedigQuery ::
  "config \<Rightarrow> (nat \<Rightarrow> attempt) \<Rightarrow> ustring \<Rightarrow> int \<Rightarrow> world \<Rightarrow> (ustring + server_result) \<times> world" where
  "gamedigQuery cfg env h p w =
     (outcome (env (calls w)),
      w\<lparr>clock := clock w + took (env (calls w)),
        calls := Suc (calls w),
        trace := trace w @ [Query h p (timeout cfg)]\<rparr>)"

definition sleep :: "int \<Rightarrow> world \<Rightarrow> world" where
  "sleep ms w = w\<lparr>clock := clock w + ms, trace := trace w @ [Sleep ms]\<rparr>"

text \<open>
  The \<open>for\<close> loop of \<open>queryServer\<close>, from index \<open>i\<close>, with \<open>lastError\<close> the message of
  the last error caught (\<open>None\<close> before the first). \<open>now\<close> is the clock reading taken at
  the entry of \<open>queryServer\<close>. The two tests of the loop, \<open>i <= config.retryCount\<close> and
  \<open>i < config.retryCount\<close>, compare the whole number \<open>i\<close> with a number that need not
  be whole.
\<close>

function retryLoop ::
  "config \<Rightarrow> (nat \<Rightarrow> attempt) \<Rightarrow> ustring \<Rightarrow> int \<Rightarrow> ustring \<Rightarrow> int \<Rightarrow> nat \<Rightarrow> ustring option
     \<Rightarrow> world \<Rightarrow> (error + query_data) \<times> world" where
  "retryLoop cfg env h p cacheKey now i lastError w =
     (if of_nat i \<le> retryCount cfg then
        (case gamedigQuery cfg env h p w of
           (Inr r, w1) \<Rightarrow>
             (let d = \<lparr>game = ascii ''csgo'', result = r\<rparr>;
                  w2 = (if cacheTime cfg > 0
                        then w1\<lparr>cache := (cache w1)(cacheKey \<mapsto> \<lparr>timestamp = now, data = d\<rparr>)\<rparr>
                        else w1)
              in (Inr d, w2))
         | (Inl m, w1) \<Rightarrow>
             retryLoop cfg env h p cacheKey now (Suc i) (Some m)
               (if of_nat i < retryCount cfg then sleep 1000 w1 else w1))
      else
        (Inl (QueryFailed (case lastError of
                             None \<Rightarrow> unknownError
                           | Some m \<Rightarrow> if m = [] then unknownError else m)), w))"
  by pat_completeness auto
termination
proof (relation "measure (\<lambda>(cfg, env, h, p, cacheKey, now, i, lastError, w).
                            nat (\<lfloor>retryCount cfg\<rfloor> + 1) - i)", goal_cases)
  case 1
  show ?case by simp
next
  case (2 cfg env h p cacheKey now i lastError w x y a)
  have "of_int (int i) \<le> retryCount cfg" using 2(1) by simp
  then have "int i \<le> \<lfloor>retryCount cfg\<rfloor>" by (simp only: le_floor_iff)
  then show ?case by simp
qed

declare retryLoop.simps [simp del]

definition queryServer ::
  "config \<Rightarrow> (nat \<Rightarrow> attempt) \<Rightarrow> ustring \<Rightarrow> int \<Rightarrow> world \<Rightarrow> (error + query_data) \<times> world" where
  "queryServer cfg env h p w =
     (let cacheKey = cacheKeyOf h p;
          now = clock w
      in case (if cacheTime cfg > 0 then cache w cacheKey else None) of
           Some cached \<Rightarrow>
             if now - timestamp cached < cacheTime cfg then (Inr (data cached), w)
             else retryLoop cfg env h p cacheKey now 0 None w
         | None \<Rightarrow> retryLoop cfg env h p cacheKey now 0 None w)"

text \<open>
  The time that passes over \<open>k\<close> failed attempts, the sleep of 1000 after each of them,
  and one more attempt, from the call of number \<open>c\<close> on.
\<close>

fun spent :: "(nat \<Rightarrow> attempt) \<Rightarrow> nat \<Rightarrow> nat \<Rightarrow> int" where
  "spent env c 0 = took (env c)"
| "spent env c (Suc k) = took (env c) + 1000 + spent env (Suc c) k"

section \<open>The batch fan-out\<close>

text \<open>
  \<open>Promise.allSettled\<close> gives one settled promise per task: fulfilled with a value, or
  rejected. The entries that \<open>queryServers\<close> builds are objects with the fields
  \<open>index\<close>, \<open>server\<close>, \<open>success\<close> and either \<open>data\<close> or \<open>error\<close>; a field an
  object does not have is \<open>None\<close>. The last two are \<open>entry_data\<close> and \<open>entry_error\<close>
  here, \<open>data\<close> being the field of the cache entry.
\<close>

datatype 'a settled = Fulfilled 'a | Rejected

record batch_entry =
  index :: nat
  server :: ustring
  success :: bool
  entry_data :: "query_data option"
  entry_error :: "ustring option"

record batch =
  results :: "batch_entry settled list"
  queryTime :: int
  serversToQuery :: "ustring list"

text \<open>
  The tasks of the fan-out run interleaved, each suspended while its query is under way.
  What a task sees of \<open>queryServer\<close> is the value or the error that the call settles
  with; \<open>q i h p\<close> is that outcome for the task of position \<open>i\<close>, whatever the
  interleaving. \<open>queryTask\<close> is the callback given to \<open>map\<close>, with its \<open>try\<close> and
  \<open>catch\<close>.
\<close>

definition queryTask ::
  "(nat \<Rightarrow> ustring \<Rightarrow> int \<Rightarrow> error + query_data) \<Rightarrow> ustring \<Rightarrow> nat \<Rightarrow> batch_entry" where
  "queryTask q srv i =
     (case parseAddress srv of
        Inl e \<Rightarrow> \<lparr>index = i + 1, server = srv, success = False,
                  entry_data = None, entry_error = Some (message e)\<rparr>
      | Inr a \<Rightarrow>
          (case q i (host a) (port a) of
             Inl e \<Rightarrow> \<lparr>index = i + 1, server = srv, success = False,
                       entry_data = None, entry_error = Some (message e)\<rparr>
           | Inr d \<Rightarrow> \<lparr>index = i + 1, server = srv, success = True,
                       entry_data = Some d, entry_error = None\<rparr>))"

text \<open>\<open>startTime\<close> and \<open>endTime\<close> are the two readings of \<open>Date.now()\<close>.\<close>

definition queryServers ::
  "(nat \<Rightarrow> ustring \<Rightarrow> int \<Rightarrow> error + query_data) \<Rightarrow> int \<Rightarrow> int \<Rightarrow> ustring list \<Rightarrow> batch" where
  "queryServers q startTime endTime srvs =
     \<lparr>results = map (\<lambda>(srv, i). Fulfilled (queryTask q srv i)) (zip srvs [0..<length srvs]),
      queryTime = endTime - startTime,
      serversToQuery = srvs\<rparr>"

section \<open>The batch text table\<close>

definition rowFailedWithError :: ustring where
  "rowFailedWithError = [32, 10060, 32, 26597, 35810, 22833, 36133, 58, 32]"

definition rowFailed :: ustring where
  "rowFailed = [32, 10060, 32, 26597, 35810, 22833, 36133, 10]"

text \<open>The \<open>paddedName\<close> of a successful row, from the result of the query.\<close>

definition paddedName :: "server_result \<Rightarrow> ustring" where
  "paddedName serverData =
     (let serverName = (if server_name serverData \<noteq> None \<and> server_name serverData \<noteq> Some []
                        then cleanName (server_name serverData) else unknownName);
          truncatedName = truncateText serverName 20
      in padEnd 20 32 truncatedName)"

text \<open>
  One round of the \<open>forEach\<close> of \<open>generateTextTable\<close>: the line added to the message
  for the result at position \<open>i\<close>. Reading \<open>serversToQuery\<close> past its end, or an
  absent \<open>error\<close>, prints \<open>undefined\<close>.
\<close>

definition tableRow :: "ustring list \<Rightarrow> batch_entry settled \<Rightarrow> nat \<Rightarrow> ustring" where
  "tableRow srvs r i =
     (let serverInfo = (if i < length srvs then srvs ! i else ascii ''undefined'');
          number = padStart 2 32 (decimal (i + 1))
      in case r of
           Fulfilled v \<Rightarrow>
             (case (if success v then entry_data v else None) of
                Some d \<Rightarrow>
                  (let serverData = result d;
                       playerCount = (case players serverData of None \<Rightarrow> 0 | Some ps \<Rightarrow> length ps);
                       maxPlayers = (case maxplayers serverData of None \<Rightarrow> 0 | Some m \<Rightarrow> m)
                   in number @ ascii ''  '' @ paddedName serverData @ ascii '' ''
                      @ decimal playerCount @ ascii ''/'' @ showInt maxPlayers @ [10])
              | None \<Rightarrow>
                  number @ ascii ''  '' @ serverInfo @ rowFailedWithError
                  @ (case entry_error v of None \<Rightarrow> ascii ''undefined'' | Some e \<Rightarrow> e) @ [10])
         | Rejected \<Rightarrow> number @ ascii ''  '' @ serverInfo @ rowFailed)"

text \<open>
  The rows of \<open>generateTextTable\<close>, in the order of the results. The title and the
  counts that precede them in the message are not part of the model.
\<close>

definition tableRows :: "batch_entry settled list \<Rightarrow> ustring list \<Rightarrow> ustring list" where
  "tableRows rs srvs = map (\<lambda>(r, i). tableRow srvs r i) (zip rs [0..<length rs])"

section \<open>The player list\<close>

definition noPlayersLine :: ustring where
  "noPlayersLine = [55357, 56420, 32, 26381, 21153, 22120, 24403, 21069, 26080, 22312, 32447,
     29609, 23478]"

definition playersHeaderPrefix :: ustring where
  "playersHeaderPrefix = [55357, 56420, 32, 22312, 32447, 29609, 23478, 32, 40]"

definition playersHeaderSuffix :: ustring where
  "playersHeaderSuffix = [20154, 41, 58, 10]"

definition morePrefix :: ustring where
  "morePrefix = [46, 46, 46, 32, 36824, 26377, 32]"

definition moreSuffix :: ustring where
  "moreSuffix = [32, 20301, 29609, 23478, 26410, 26174, 31034]"

text \<open>
  \<open>Array.prototype.sort\<close> with a comparator is stable: for a comparator that orders its
  arguments consistently the result is the one sorted arrangement that keeps equal
  elements in their order, which insertion from the right builds.
\<close>

fun insertBy :: "('a \<Rightarrow> 'a \<Rightarrow> int) \<Rightarrow> 'a \<Rightarrow> 'a list \<Rightarrow> 'a list" where
  "insertBy c x [] = [x]"
| "insertBy c x (y # ys) = (if c x y \<le> 0 then x # y # ys else y # insertBy c x ys)"

definition sortBy :: "('a \<Rightarrow> 'a \<Rightarrow> int) \<Rightarrow> 'a list \<Rightarrow> 'a list" where
  "sortBy c xs = foldr (insertBy c) xs []"

text \<open>
  \<open>toLowerCase\<close> and \<open>localeCompare\<close> belong to the runtime and its locale; they are
  parameters. \<open>comparePlayers\<close> is the comparator that \<open>formatPlayers\<close> gives to
  \<open>sort\<close>.
\<close>

definition comparePlayers ::
  "(ustring \<Rightarrow> ustring) \<Rightarrow> (ustring \<Rightarrow> ustring \<Rightarrow> int) \<Rightarrow> player \<Rightarrow> player \<Rightarrow> int" where
  "comparePlayers toLowerCase localeCompare a b =
     localeCompare (toLowerCase (cleanName (name a))) (toLowerCase (cleanName (name b)))"

definition playerLine :: "player \<Rightarrow> nat \<Rightarrow> ustring" where
  "playerLine pl i = decimal (i + 1) @ ascii ''. '' @ cleanName (name pl) @ [10]"

text \<open>
  \<open>xs.slice(0, end)\<close>: \<open>end\<close> is cut to a whole number towards zero; a negative one
  counts from the end of the list.
\<close>

definition toIntegerOrInfinity :: "rat \<Rightarrow> int" where
  "toIntegerOrInfinity x = (if x < 0 then \<lceil>x\<rceil> else \<lfloor>x\<rfloor>)"

definition slice0 :: "rat \<Rightarrow> 'a list \<Rightarrow> 'a list" where
  "slice0 end xs =
     (let relativeEnd = toIntegerOrInfinity end;
          len = int (length xs);
          final = (if relativeEnd < 0 then max (len + relativeEnd) 0 else min relativeEnd len)
      in take (nat final) xs)"

text \<open>
  A number in a template literal: a whole number prints as its decimal digits. What the
  runtime prints for a number that is not whole depends on its doubles; it is the
  parameter \<open>showFraction\<close>.
\<close>

definition showNumber :: "(rat \<Rightarrow> ustring) \<Rightarrow> rat \<Rightarrow> ustring" where
  "showNumber showFraction x = (if x = of_int \<lfloor>x\<rfloor> then showInt \<lfloor>x\<rfloor> else showFraction x)"

definition formatPlayers ::
  "config \<Rightarrow> (ustring \<Rightarrow> ustring) \<Rightarrow> (ustring \<Rightarrow> ustring \<Rightarrow> int) \<Rightarrow> (rat \<Rightarrow> ustring)
     \<Rightarrow> player list option \<Rightarrow> ustring" where
  "formatPlayers cfg toLowerCase localeCompare showFraction pls =
     (case pls of
        None \<Rightarrow> noPlayersLine
      | Some ps \<Rightarrow>
          if length ps = 0 then noPlayersLine
          else
            (let sortedPlayers = sortBy (comparePlayers toLowerCase localeCompare) ps;
                 displayPlayers = slice0 (maxPlayers cfg) sortedPlayers;
                 header = playersHeaderPrefix @ decimal (length ps) @ playersHeaderSuffix;
                 body = concat (map (\<lambda>(pl, i). playerLine pl i)
                                 (zip displayPlayers [0..<length displayPlayers]));
                 more = (if of_nat (length ps) > maxPlayers cfg
                         then morePrefix
                              @ showNumber showFraction (of_nat (length ps) - maxPlayers cfg)
                              @ moreSuffix
                         else [])
             in trim (header @ body @ more)))"

section \<open>The scheduler\<close>

text \<open>
  The runtime keeps the interval timers that are armed: \<open>setInterval\<close> arms a new one
  and returns its handle, \<open>clearInterval\<close> disarms the one of a handle. The plugin keeps
  one handle, \<open>scheduleTimer\<close>, or \<open>null\<close>. \<open>console\<close> records the immediate run of the
  task and the two log lines.
\<close>

datatype sched_event = ImmediateRun | LogStarted | LogStopped

record scheduler =
  scheduleTimer :: "nat option"
  timers :: "(nat \<times> int) list"
  nextHandle :: nat
  console :: "sched_event list"

definition initial :: scheduler where
  "initial = \<lparr>scheduleTimer = None, timers = [], nextHandle = 0, console = []\<rparr>"

definition setInterval :: "int \<Rightarrow> scheduler \<Rightarrow> nat \<times> scheduler" where
  "setInterval ms st =
     (nextHandle st, st\<lparr>timers := timers st @ [(nextHandle st, ms)], nextHandle := Suc (nextHandle st)\<rparr>)"

definition clearInterval :: "nat \<Rightarrow> scheduler \<Rightarrow> scheduler" where
  "clearInterval h st = st\<lparr>timers := filter (\<lambda>(k, ms). k \<noteq> h) (timers st)\<rparr>"

definition startScheduleTask :: "config \<Rightarrow> scheduler \<Rightarrow> scheduler" where
  "startScheduleTask cfg st =
     (let st1 = (case scheduleTimer st of Some h \<Rightarrow> clearInterval h st | None \<Rightarrow> st)
      in if scheduleEnabled cfg \<and> scheduleInterval cfg > 0 then
           (let intervalMs = scheduleInterval cfg * 60 * 1000;
                st2 = st1\<lparr>console := console st1 @ [ImmediateRun]\<rparr>;
                (h, st3) = setInterval intervalMs st2
            in st3\<lparr>scheduleTimer := Some h, console := console st3 @ [LogStarted]\<rparr>)
         else st1)"

definition stopScheduleTask :: "scheduler \<Rightarrow> scheduler" where
  "stopScheduleTask st =
     (case scheduleTimer st of
        Some h \<Rightarrow> (clearInterval h st)\<lparr>scheduleTimer := None,
                                        console := console (clearInterval h st) @ [LogStopped]\<rparr>
      | None \<Rightarrow> st)"

text \<open>
  The states of the scheduler in the plugin. Every call site of \<open>startScheduleTask\<close>
  runs with \<open>scheduleEnabled\<close> set, and the schema keeps \<open>scheduleInterval\<close> at 1 or
  more.
\<close>

inductive reachable :: "scheduler \<Rightarrow> bool" where
  init: "reachable initial"
| start: "reachable st \<Longrightarrow> scheduleEnabled cfg \<Longrightarrow> 0 < scheduleInterval cfg
           \<Longrightarrow> reachable (startScheduleTask cfg st)"
| stop: "reachable st \<Longrightarrow> reachable (stopScheduleTask st)"

text \<open>
  The invariant of the scheduler: no timer is armed and no handle is held, or exactly one
  timer is armed and it is the one of the held handle.
\<close>

definition oneTimer :: "scheduler \<Rightarrow> bool" where
  "oneTimer st =
     (case (timers st, scheduleTimer st) of
        ([], None) \<Rightarrow> True
      | ([(h, ms)], Some k) \<Rightarrow> h = k \<and> h < nextHandle st
      | _ \<Rightarrow> False)"

text \<open>
  \<open>Number(s)\<close> on the strings that the schema of the two times lets through
  (\<open>/^([01]?[0-9]|2[0-3]):[0-5][0-9]$/\<close>): white space around is dropped, the empty
  string is 0, decimal digits are their value, and anything else is \<open>NaN\<close>, which is
  \<open>None\<close>. The other numeric literals of ECMAScript (a sign, a fraction, an exponent,
  a radix prefix, \<open>Infinity\<close>) are not modelled: they give \<open>None\<close> here.
\<close>

definition toNumber :: "ustring \<Rightarrow> int option" where
  "toNumber s =
     (let t = trim s
      in if t = [] then Some 0
         else if list_all isDigit t then Some (int (radixValue 10 t))
         else None)"

text \<open>
  \<open>const [hours, minutes] = timeStr.split(':').map(Number)\<close>: a missing part is
  \<open>undefined\<close>, and the sum is then \<open>NaN\<close>.
\<close>

definition parseTimeToMinutes :: "ustring \<Rightarrow> int option" where
  "parseTimeToMinutes timeStr =
     (case map toNumber (split 58 timeStr) of
        Some hours # Some minutes # rest \<Rightarrow> Some (hours * 60 + minutes)
      | _ \<Rightarrow> None)"

text \<open>
  \<open>hours\<close> and \<open>minutes\<close> are \<open>now.getHours()\<close> and \<open>now.getMinutes()\<close>. A comparison
  with \<open>NaN\<close> is false.
\<close>

definition isWithinScheduleTime :: "ustring \<Rightarrow> ustring \<Rightarrow> int \<Rightarrow> int \<Rightarrow> bool" where
  "isWithinScheduleTime startTime endTime hours minutes =
     (let currentMinutes = hours * 60 + minutes
      in case (parseTimeToMinutes startTime, parseTimeToMinutes endTime) of
           (Some startMinutes, Some endMinutes) \<Rightarrow>
             currentMinutes \<ge> startMinutes \<and> currentMinutes \<le> endMinutes
         | _ \<Rightarrow> False)"

text \<open>
  What a tick does: nothing, or one query task per configured server followed by one
  broadcast per configured group. The content of the broadcast is not modelled.
\<close>

datatype tick_effect = QueryTask ustring | Broadcast ustring

definition executeScheduleTask :: "config \<Rightarrow> int \<Rightarrow> int \<Rightarrow> tick_effect list" where
  "executeScheduleTask cfg hours minutes =
     (if \<not> scheduleEnabled cfg \<or> length (scheduleGroups cfg) = 0 \<or> length (serverList cfg) = 0
      then []
      else if \<not> isWithinScheduleTime (scheduleStartTime cfg) (scheduleEndTime cfg) hours minutes
      then []
      else map QueryTask (serverList cfg)
           @ map (\<lambda>groupId. Broadcast (ascii ''onebot:'' @ groupId)) (scheduleGroups cfg))"

section \<open>The commands\<close>

text \<open>The options of the two commands; an option not given is \<open>None\<close> or false.\<close>

record options =
  opt_image :: bool
  opt_text :: bool
  opt_clear :: bool
  opt_list :: bool
  opt_add :: "ustring option"
  opt_remove :: "int option"

definition shouldGenerateImage :: "options \<Rightarrow> config \<Rightarrow> bool" where
  "shouldGenerateImage opts cfg = (opt_image opts \<or> (generateImage cfg \<and> \<not> opt_text opts))"

text \<open>
  What a command answers. The image generators draw on a canvas of the host; \<open>img\<close> is
  their outcome, the message of the error thrown or success.
\<close>

datatype reply =
    Usage
  | CacheCleared
  | ListManagement
  | NoServers
  | Image
  | ImageFailed ustring
  | Text
  | TextAfterImageFailure
  | QueryError error

definition csAction ::
  "config \<Rightarrow> (ustring \<Rightarrow> int \<Rightarrow> error + query_data) \<Rightarrow> (query_data \<Rightarrow> ustring + unit)
     \<Rightarrow> options \<Rightarrow> ustring option \<Rightarrow> reply" where
  "csAction cfg q img opts addr =
     (case addr of
        None \<Rightarrow> Usage
      | Some a \<Rightarrow>
          if a = [] then Usage
          else if opt_clear opts then CacheCleared
          else
            (case parseAddress a of
               Inl e \<Rightarrow> QueryError e
             | Inr hp \<Rightarrow>
                 (case q (host hp) (port hp) of
                    Inl e \<Rightarrow> QueryError e
                  | Inr d \<Rightarrow>
                      if shouldGenerateImage opts cfg then
                        (case img d of Inr u \<Rightarrow> Image | Inl m \<Rightarrow> ImageFailed m)
                      else Text)))"

text \<open>The query path of \<open>csss\<close>, once the servers to query are chosen.\<close>

definition csssQuery ::
  "config \<Rightarrow> (nat \<Rightarrow> ustring \<Rightarrow> int \<Rightarrow> error + query_data) \<Rightarrow> int \<Rightarrow> int
     \<Rightarrow> (batch \<Rightarrow> ustring + unit) \<Rightarrow> options \<Rightarrow> ustring list \<Rightarrow> reply" where
  "csssQuery cfg q startTime endTime img opts chosen =
     (let maxServers = 10;
          srvs = (if length chosen > maxServers then take maxServers chosen else chosen);
          b = queryServers q startTime endTime srvs
      in if shouldGenerateImage opts cfg then
           (case img b of Inr u \<Rightarrow> Image | Inl m \<Rightarrow> TextAfterImageFailure)
         else Text)"

definition csssAction ::
  "config \<Rightarrow> (nat \<Rightarrow> ustring \<Rightarrow> int \<Rightarrow> error + query_data) \<Rightarrow> int \<Rightarrow> int
     \<Rightarrow> (batch \<Rightarrow> ustring + unit) \<Rightarrow> options \<Rightarrow> ustring list \<Rightarrow> reply" where
  "csssAction cfg q startTime endTime img opts addresses =
     (if opt_list opts then ListManagement
      else if opt_add opts \<noteq> None \<and> opt_add opts \<noteq> Some [] then ListManagement
      else if opt_remove opts \<noteq> None then ListManagement
      else if opt_clear opts then ListManagement
      else if length addresses > 0 then csssQuery cfg q startTime endTime img opts addresses
      else if length (serverList cfg) > 0
      then csssQuery cfg q startTime endTime img opts (serverList cfg)
      else NoServers)"

text \<open>Whether a reply shows that an image was attempted.\<close>

fun imageAttempted :: "reply \<Rightarrow> bool" where
  "imageAttempted Image = True"
| "imageAttempted (ImageFailed m) = True"
| "imageAttempted TextAfterImageFailure = True"
| "imageAttempted r = False"

section \<open>Values for the examples\<close>

text \<open>The defaults of the schema.\<close>

definition defaultConfig :: config where
  "defaultConfig =
     \<lparr>timeout = 5000, cacheTime = 30000, maxPlayers = 20, retryCount = 2, generateImage = True,
      serverList = [ascii ''edgebug.cn:27015'', ascii ''edgebug.cn:27016'',
                    ascii ''edgebug.cn:27017'', ascii ''edgebug.cn:27018'',
                    ascii ''edgebug.cn:27019''],
      scheduleEnabled = False, scheduleInterval = 5,
      scheduleStartTime = ascii ''08:00'', scheduleEndTime = ascii ''23:00'',
      scheduleGroups = []\<rparr>"

text \<open>A world with an empty cache, at time 0.\<close>

definition emptyWorld :: world where
  "emptyWorld = \<lparr>cache = Map.empty, clock = 0, calls = 0, trace = []\<rparr>"

definition someResult :: server_result where
  "someResult = \<lparr>server_name = Some (ascii ''Dust2 24/7''), players = Some [], maxplayers = Some 32\<rparr>"

text \<open>A query library that times out twice and then answers.\<close>

definition failsTwice :: "nat \<Rightarrow> attempt" where
  "failsTwice n = (if n < 2 then \<lparr>took = 5000, outcome = Inl (ascii ''timeout'')\<rparr>
                   else \<lparr>took = 40, outcome = Inr someResult\<rparr>)"

definition someData :: query_data where
  "someData = \<lparr>game = ascii ''csgo'', result = someResult\<rparr>"

text \<open>A world at time \<open>t\<close> whose cache holds an entry for \<open>a:27015\<close> stamped 0.\<close>

definition cachedWorld :: "int \<Rightarrow> world" where
  "cachedWorld t =
     \<lparr>cache = [cacheKeyOf (ascii ''a'') 27015 \<mapsto> \<lparr>timestamp = 0, data = someData\<rparr>],
      clock = t, calls = 0, trace = []\<rparr>"

text \<open>Both \<open>-i\<close> and \<open>-t\<close> given, and nothing else.\<close>

definition bothFlags :: options where
  "bothFlags = \<lparr>opt_image = True, opt_text = True, opt_clear = False, opt_list = False,
                 opt_add = None, opt_remove = None\<rparr>"

text \<open>A configuration with the scheduler on, one group, and the window 08:00 to 23:00.\<close>

definition scheduleConfig :: config where
  "scheduleConfig = defaultConfig\<lparr>scheduleEnabled := True, scheduleGroups := [ascii ''10001'']\<rparr>"

text \<open>The same with a window that starts in the evening and ends in the morning.\<close>

definition overnightConfig :: config where
  "overnightConfig = scheduleConfig\<lparr>scheduleStartTime := ascii ''23:00'',
                                     scheduleEndTime := ascii ''08:00''\<rparr>"

text \<open>A query that fails for the host \<open>b\<close> and succeeds for every other host.\<close>

definition failsForB :: "nat \<Rightarrow> ustring \<Rightarrow> int \<Rightarrow> error + query_data" where
  "failsForB i h p = (if h = ascii ''b'' then Inl (QueryFailed (ascii ''timeout'')) else Inr someData)"




text \<open>The entry of a successful query of a server with a name of 21 characters.\<close>

definition longNameEntry :: batch_entry where
  "longNameEntry =
     \<lparr>index = 1, server = ascii ''a:1'', success = True,
      entry_data = Some \<lparr>game = ascii ''csgo'',
                         result = \<lparr>server_name = Some (ascii ''AAAAAAAAAAAAAAAAAAAAA''),
                                   players = None, maxplayers = None\<rparr>\<rparr>,
      entry_error = None\<rparr>"



text \<open>A query library that answers every call after 3000 milliseconds.\<close>

definition slowAnswer :: "nat \<Rightarrow> attempt" where
  "slowAnswer n = \<lparr>took = 3000, outcome = Inr someResult\<rparr>"

text \<open>A query library that never answers.\<close>

definition neverAnswers :: "nat \<Rightarrow> attempt" where
  "neverAnswers n = \<lparr>took = 5000, outcome = Inl (ascii ''timeout'')\<rparr>"

text \<open>Another result, and a query library that gives it at once.\<close>

definition otherResult :: server_result where
  "otherResult = \<lparr>server_name = Some (ascii ''Mirage''), players = None, maxplayers = Some 10\<rparr>"

definition answersAtOnce :: "nat \<Rightarrow> attempt" where
  "answersAtOnce n = \<lparr>took = 40, outcome = Inr otherResult\<rparr>"


section \<open>The address parser: properties\<close>

lemma decimal_digit: "n < 10 \<Longrightarrow> decimal n = [48 + n]"
  by (simp add: decimal.simps)

lemma split_not_Nil: "split sep s \<noteq> []"
  by (induction s) (auto split: list.splits)

lemma split_no_sep: "sep \<notin> set s \<Longrightarrow> split sep s = [s]"
  by (induction s) auto

lemma split_append_sep: "sep \<notin> set h \<Longrightarrow> split sep (h @ sep # p) = h # split sep p"
  by (induction h) auto

lemma length_split: "length (split sep s) = Suc (count_list s sep)"
  by (induction s) (auto split: list.splits simp: split_not_Nil)

lemma first_sep_unique:
  "sep \<notin> set P \<Longrightarrow> sep \<notin> set h \<Longrightarrow> prefix (P @ sep # Q) (h @ sep # ds)
     \<Longrightarrow> P = h \<and> prefix Q ds"
proof (induction P arbitrary: h)
  case Nil
  then show ?case by (cases h) auto
next
  case (Cons a P)
  then show ?case by (cases h) auto
qed

lemma stripScheme_no_colon: "58 \<notin> set s \<Longrightarrow> stripScheme s = s"
proof -
  assume a: "58 \<notin> set s"
  have "\<And>p. 58 \<in> set p \<Longrightarrow> \<not> prefix p s"
    using a set_mono_prefix by fastforce
  then show ?thesis by (simp add: stripScheme_def ascii_def)
qed

lemma stripScheme_host_port:
  assumes "58 \<notin> set h" and "ds \<noteq> []" and "list_all isDigit ds"
  shows "stripScheme (h @ 58 # ds) = h @ 58 # ds"
proof -
  have nd: "\<not> prefix [47, 47] ds"
    using assms(2,3) by (cases ds) (auto simp: isDigit_def)
  have "\<not> prefix (P @ 58 # [47, 47]) (h @ 58 # ds)" if "58 \<notin> set P" for P
    using first_sep_unique [OF that assms(1)] nd by blast
  from this [of "[104, 116, 116, 112]"] this [of "[104, 116, 116, 112, 115]"]
       this [of "[117, 100, 112]"] this [of "[116, 99, 112]"]
  show ?thesis by (simp add: stripScheme_def ascii_def)
qed

lemma takeWhile_digits: "list_all isDigit ds \<Longrightarrow> takeWhile (isRadixDigit 10) ds = ds"
  by (induction ds) (auto simp: isDigit_def isRadixDigit_def digitValue_def)

text \<open>On a string of decimal digits \<open>parseInt\<close> is the decimal value.\<close>

lemma parseInt_digits:
  assumes "ds \<noteq> []" and "list_all isDigit ds"
  shows "parseInt ds = Some (int (radixValue 10 ds))"
proof -
  obtain d r where ds: "ds = d # r" using assms(1) by (cases ds) auto
  have d: "48 \<le> d" "d \<le> 57" using assms(2) ds by (auto simp: isDigit_def)
  have nw: "\<not> isWhiteSpace d" using d by (auto simp: isWhiteSpace_def)
  have nx: "r \<noteq> [] \<Longrightarrow> hd r \<noteq> 120 \<and> hd r \<noteq> 88"
    using assms(2) ds by (cases r) (auto simp: isDigit_def)
  have tw: "takeWhile (isRadixDigit 10) (d # r) = d # r"
    using takeWhile_digits [OF assms(2)] ds by simp
  show ?thesis
    unfolding parseInt_def Let_def ds using nw d nx tw
    by (cases r) auto
qed

lemma parseBracketed_no_bracket: "91 \<notin> set a \<Longrightarrow> parseBracketed a = None"
  by (simp add: parseBracketed_def)

text \<open>
  The parts of the contract of \<open>parseAddress\<close> that hold: a plain \<open>host:port\<close> with a
  decimal port between 1 and 65535 gives that host and that port; a plain input with no
  colon is the host, with port 27015; a decimal port of 0 or above 65535, and more than
  one colon, fail with the error that carries the input.
\<close>

lemma parseAddress_host_port:
  assumes "58 \<notin> set h" and "91 \<notin> set h"
    and "ds \<noteq> []" and "list_all isDigit ds"
    and "1 \<le> radixValue 10 ds" and "radixValue 10 ds \<le> 65535"
  shows "parseAddress (h @ 58 # ds) = Inr \<lparr>host = h, port = int (radixValue 10 ds)\<rparr>"
proof -
  have c: "58 \<notin> set ds" "91 \<notin> set ds"
    using assms(4) by (auto simp: list_all_iff isDigit_def)
  have b: "parseBracketed (h @ 58 # ds) = None"
    using assms(2) c by (simp add: parseBracketed_no_bracket)
  have s: "split 58 (h @ 58 # ds) = [h, ds]"
    using assms(1) c by (simp add: split_append_sep split_no_sep)
  show ?thesis
    using assms(5,6)
    by (simp add: parseAddress_def Let_def stripScheme_host_port [OF assms(1,3,4)] b s
        parseInt_digits [OF assms(3,4)])
qed

lemma parseAddress_no_colon:
  assumes "58 \<notin> set s" and "91 \<notin> set s"
  shows "parseAddress s = Inr \<lparr>host = s, port = 27015\<rparr>"
  using assms
  by (simp add: parseAddress_def Let_def stripScheme_no_colon parseBracketed_no_bracket split_no_sep)

lemma parseAddress_port_out_of_range:
  assumes "58 \<notin> set h" and "91 \<notin> set h"
    and "ds \<noteq> []" and "list_all isDigit ds"
    and "radixValue 10 ds = 0 \<or> 65535 < radixValue 10 ds"
  shows "parseAddress (h @ 58 # ds) = Inl (InvalidAddress (h @ 58 # ds))"
proof -
  have c: "58 \<notin> set ds" "91 \<notin> set ds"
    using assms(4) by (auto simp: list_all_iff isDigit_def)
  have b: "parseBracketed (h @ 58 # ds) = None"
    using assms(2) c by (simp add: parseBracketed_no_bracket)
  have s: "split 58 (h @ 58 # ds) = [h, ds]"
    using assms(1) c by (simp add: split_append_sep split_no_sep)
  show ?thesis
    using assms(5)
    by (auto simp add: parseAddress_def Let_def stripScheme_host_port [OF assms(1,3,4)] b s
        parseInt_digits [OF assms(3,4)])
qed

lemma parseAddress_many_colons:
  assumes "stripScheme s = s" and "91 \<notin> set s" and "2 \<le> count_list s 58"
  shows "parseAddress s = Inl (InvalidAddress s)"
  using assms
  by (simp add: parseAddress_def Let_def parseBracketed_no_bracket length_split)

lemmas parse_eval = parseAddress_def Let_def stripScheme_def ascii_def parseBracketed_def
  parseInt_def isWhiteSpace_def isRadixDigit_def digitValue_def radixValue_def
  matchBracketed_def isDigit_def

lemma parseAddress_bracketed_examples:
  "parseAddress (ascii ''[::1]:27015'') = Inr \<lparr>host = ascii ''::1'', port = 27015\<rparr>"
  "parseAddress (ascii ''[::1]'') = Inr \<lparr>host = ascii ''::1'', port = 27015\<rparr>"
  "parseAddress (ascii ''udp://a:80'') = Inr \<lparr>host = ascii ''a'', port = 80\<rparr>"
  by (simp_all add: parse_eval)

lemma parseAddress_non_numeric_rejected:
  "parseAddress (ascii ''a:abc'') = Inl (InvalidAddress (ascii ''a:abc''))"
  by (simp add: parse_eval)

text \<open>
  Claim C1. The claim has a port that is not a number fail. \<open>parseInt\<close> reads the
  leading digits of the port and drops what follows them, and the test that follows
  rejects \<open>NaN\<close> only: for the input \<open>a:80abc\<close> the parser returns the host \<open>a\<close>
  and the port 80. The bracketed form of the same function asks for digits up to the end
  of the input (\<open>\d+\<close> before \<open>$\<close>).
\<close>

theorem parseAddress_accepts_trailing_text:
  "parseAddress (ascii ''a:80abc'') = Inr \<lparr>host = ascii ''a'', port = 80\<rparr>"
  by (simp add: parse_eval)

section \<open>The batch text table: properties\<close>

lemma length_truncateText:
  "length (truncateText t n) = (if length t > n then n + 3 else length t)"
  by (simp add: truncateText_def ellipsis_def ascii_def)

lemma length_padEnd: "length (padEnd n f s) = max n (length s)"
  by (simp add: padEnd_def)

text \<open>The width of the name of a successful row: 20, or 23 for a name longer than 20.\<close>

lemma length_paddedName:
  "length (paddedName r) =
     (if 20 < length (if server_name r \<noteq> None \<and> server_name r \<noteq> Some []
                      then cleanName (server_name r) else unknownName)
      then 23 else 20)"
  by (simp add: paddedName_def Let_def length_padEnd length_truncateText)

lemma cleanName_plain:
  "cleanName (Some (ascii ''AAAAAAAAAAAAAAAAAAAAA'')) = ascii ''AAAAAAAAAAAAAAAAAAAAA''"
  by (simp add: cleanName_def trim_def isWhiteSpace_def isDigit_def ascii_def)

text \<open>
  Claim C5. The claim has the name of every successful row take exactly 20 characters.
  \<open>truncateText\<close> keeps 20 characters of a longer name and then appends three dots, and
  \<open>padEnd(20)\<close> does not shorten: for a server name of 21 characters the field is 23
  characters wide.
\<close>

theorem paddedName_long_name:
  "paddedName \<lparr>server_name = Some (ascii ''AAAAAAAAAAAAAAAAAAAAA''), players = None,
                maxplayers = None\<rparr> = ascii ''AAAAAAAAAAAAAAAAAAAA...''
   \<and> length (paddedName \<lparr>server_name = Some (ascii ''AAAAAAAAAAAAAAAAAAAAA''), players = None,
                maxplayers = None\<rparr>) = 23
   \<and> tableRow [ascii ''a:1''] (Fulfilled longNameEntry) 0
       = ascii '' 1  AAAAAAAAAAAAAAAAAAAA... 0/0'' @ [10]"
proof -
  have n: "paddedName \<lparr>server_name = Some (ascii ''AAAAAAAAAAAAAAAAAAAAA''), players = None,
                maxplayers = None\<rparr> = ascii ''AAAAAAAAAAAAAAAAAAAA...''"
    by (simp add: paddedName_def Let_def cleanName_plain truncateText_def padEnd_def ellipsis_def)
      (simp add: ascii_def)
  have r: "tableRow [ascii ''a:1''] (Fulfilled longNameEntry) 0
       = ascii '' 1  AAAAAAAAAAAAAAAAAAAA... 0/0'' @ [10]"
    by (simp add: tableRow_def longNameEntry_def Let_def n padStart_def decimal_digit showInt_def)
      (simp add: ascii_def)
  show ?thesis using n r by (simp add: ascii_def)
qed

section \<open>The commands: properties\<close>

lemma cs_image_attempted:
  assumes "addr \<noteq> []" and "\<not> opt_clear opts"
    and "parseAddress addr = Inr hp" and "q (host hp) (port hp) = Inr d"
  shows "imageAttempted (csAction cfg q img opts (Some addr)) = shouldGenerateImage opts cfg"
  using assms by (cases "img d") (simp_all add: csAction_def)

lemma csssQuery_image_attempted:
  "imageAttempted (csssQuery cfg q t0 t1 img opts chosen) = shouldGenerateImage opts cfg"
  by (simp add: csssQuery_def Let_def split: sum.splits)

lemma csss_image_attempted:
  assumes "\<not> opt_list opts" and "opt_add opts = None \<or> opt_add opts = Some []"
    and "opt_remove opts = None" and "\<not> opt_clear opts"
    and "addresses \<noteq> [] \<or> serverList cfg \<noteq> []"
  shows "imageAttempted (csssAction cfg q t0 t1 img opts addresses) = shouldGenerateImage opts cfg"
  using assms by (auto simp add: csssAction_def csssQuery_image_attempted)

text \<open>
  Claim C10. In \<open>cs\<close> and in \<open>csss\<close>, once the command reaches its query and the query
  returns, an image is attempted exactly when \<open>options.image\<close> is set or
  \<open>config.generateImage\<close> is set and \<open>options.text\<close> is not. So \<open>options.image\<close>
  alone decides when it is set, whatever \<open>options.text\<close> is, and \<open>options.text\<close> only
  turns off the default of the configuration.
\<close>

theorem image_flag_precedence:
  assumes "addr \<noteq> []" and "\<not> opt_clear opts"
    and "parseAddress addr = Inr hp" and "q (host hp) (port hp) = Inr d"
    and "\<not> opt_list opts" and "opt_add opts = None \<or> opt_add opts = Some []"
    and "opt_remove opts = None"
    and "addresses \<noteq> [] \<or> serverList cfg \<noteq> []"
  shows "imageAttempted (csAction cfg q img opts (Some addr))
           = (opt_image opts \<or> (generateImage cfg \<and> \<not> opt_text opts))
       \<and> imageAttempted (csssAction cfg qs t0 t1 imgs opts addresses)
           = (opt_image opts \<or> (generateImage cfg \<and> \<not> opt_text opts))
       \<and> (opt_image opts \<longrightarrow> imageAttempted (csAction cfg q img opts (Some addr))
                              \<and> imageAttempted (csssAction cfg qs t0 t1 imgs opts addresses))"
  using cs_image_attempted [where q = q and hp = hp, OF assms(1,2,3,4), of cfg img]
    csss_image_attempted [OF assms(5,6,7,2,8), of qs t0 t1 imgs]
  by (simp add: shouldGenerateImage_def)

theorem image_flag_precedence_witness:
  "imageAttempted (csAction (defaultConfig\<lparr>generateImage := False\<rparr>) (\<lambda>h p. Inr someData)
      (\<lambda>d. Inr ()) bothFlags (Some (ascii ''a:1'')))
   \<and> imageAttempted (csssAction (defaultConfig\<lparr>generateImage := False\<rparr>) (\<lambda>i h p. Inr someData)
      0 5 (\<lambda>b. Inl (ascii ''no canvas'')) bothFlags [ascii ''a:1''])"
proof -
  have p: "parseAddress (ascii ''a:1'') = Inr \<lparr>host = ascii ''a'', port = 1\<rparr>"
    by (simp add: parse_eval)
  have q: "(\<lambda>h p. Inr someData) (host \<lparr>host = ascii ''a'', port = 1\<rparr>)
             (port \<lparr>host = ascii ''a'', port = 1\<rparr>) = (Inr someData :: error + query_data)"
    by simp
  show ?thesis
    using image_flag_precedence [where addr = "ascii ''a:1''" and opts = bothFlags
        and hp = "\<lparr>host = ascii ''a'', port = 1\<rparr>" and q = "\<lambda>h p. Inr someData"
        and d = someData and addresses = "[ascii ''a:1'']"
        and cfg = "defaultConfig\<lparr>generateImage := False\<rparr>" and img = "\<lambda>d. Inr ()"
        and qs = "\<lambda>i h p. Inr someData" and ?t0.0 = 0 and ?t1.0 = 5
        and imgs = "\<lambda>b. Inl (ascii ''no canvas'')", OF _ _ p q]
    by (simp add: bothFlags_def ascii_def)
qed

section \<open>The query cache and the retry loop: properties\<close>

lemma spent_sum: "spent env c k = (\<Sum>j\<le>k. took (env (c + j))) + 1000 * int k"
proof (induction k arbitrary: c)
  case 0
  then show ?case by simp
next
  case (Suc k)
  have "(\<Sum>j\<le>Suc k. took (env (c + j))) = took (env c) + (\<Sum>j\<le>k. took (env (Suc c + j)))"
    by (simp add: sum.atMost_Suc_shift del: sum.atMost_Suc)
  with Suc show ?case by simp
qed

text \<open>The loop makes the attempts of index 0 up to the whole part of \<open>retryCount\<close>.\<close>

lemma attempt_allowed: "(of_nat i \<le> retryCount cfg) = (i < nat (\<lfloor>retryCount cfg\<rfloor> + 1))"
proof -
  have "(of_nat i \<le> retryCount cfg) = (of_int (int i) \<le> retryCount cfg)" by simp
  also have "\<dots> = (int i \<le> \<lfloor>retryCount cfg\<rfloor>)" by (simp only: le_floor_iff)
  also have "\<dots> = (i < nat (\<lfloor>retryCount cfg\<rfloor> + 1))" by auto
  finally show ?thesis .
qed

lemma retryLoop_exit:
  "\<not> of_nat i \<le> retryCount cfg \<Longrightarrow>
   retryLoop cfg env h p key now i le w =
     (Inl (QueryFailed (case le of None \<Rightarrow> unknownError
                        | Some m \<Rightarrow> if m = [] then unknownError else m)), w)"
  by (subst retryLoop.simps) simp

lemma retryLoop_return:
  "of_nat i \<le> retryCount cfg \<Longrightarrow> outcome (env (calls w)) = Inr r \<Longrightarrow>
   retryLoop cfg env h p key now i le w =
     (Inr \<lparr>game = ascii ''csgo'', result = r\<rparr>,
      w\<lparr>cache := (if cacheTime cfg > 0
                   then (cache w)(key \<mapsto> \<lparr>timestamp = now, data = \<lparr>game = ascii ''csgo'', result = r\<rparr>\<rparr>)
                   else cache w),
        clock := clock w + took (env (calls w)),
        calls := Suc (calls w),
        trace := trace w @ [Query h p (timeout cfg)]\<rparr>)"
  by (subst retryLoop.simps) (simp add: gamedigQuery_def Let_def)

lemma retryLoop_retry:
  "of_nat i \<le> retryCount cfg \<Longrightarrow> outcome (env (calls w)) = Inl m \<Longrightarrow>
   retryLoop cfg env h p key now i le w =
     retryLoop cfg env h p key now (Suc i) (Some m)
       (if of_nat i < retryCount cfg then sleep 1000 (snd (gamedigQuery cfg env h p w))
        else snd (gamedigQuery cfg env h p w))"
  by (subst retryLoop.simps) (simp add: gamedigQuery_def)

lemma calls_after_attempt:
  "calls (if b then sleep 1000 (snd (gamedigQuery cfg env h p w))
          else snd (gamedigQuery cfg env h p w)) = Suc (calls w)"
  by (simp add: gamedigQuery_def sleep_def)

lemma retryLoop_calls_le:
  "calls (snd (retryLoop cfg env h p key now i le w))
     \<le> calls w + (nat (\<lfloor>retryCount cfg\<rfloor> + 1) - i)"
proof (induction "nat (\<lfloor>retryCount cfg\<rfloor> + 1) - i" arbitrary: i le w)
  case 0
  then have "\<not> of_nat i \<le> retryCount cfg" by (simp add: attempt_allowed)
  then show ?case by (simp add: retryLoop_exit)
next
  case (Suc n)
  then have i: "of_nat i \<le> retryCount cfg" by (simp add: attempt_allowed)
  show ?case
  proof (cases "outcome (env (calls w))")
    case (Inr r)
    with i Suc.hyps(2) show ?thesis by (simp add: retryLoop_return)
  next
    case (Inl m)
    let ?w2 = "if of_nat i < retryCount cfg then sleep 1000 (snd (gamedigQuery cfg env h p w))
               else snd (gamedigQuery cfg env h p w)"
    have n: "n = nat (\<lfloor>retryCount cfg\<rfloor> + 1) - Suc i" using Suc.hyps(2) by simp
    have c2: "calls ?w2 = Suc (calls w)" by (rule calls_after_attempt)
    have "calls (snd (retryLoop cfg env h p key now (Suc i) (Some m) ?w2))
            \<le> calls ?w2 + (nat (\<lfloor>retryCount cfg\<rfloor> + 1) - Suc i)"
      by (rule Suc.hyps(1) [OF n])
    also have "\<dots> = calls w + (nat (\<lfloor>retryCount cfg\<rfloor> + 1) - i)"
      unfolding c2 using Suc.hyps(2) by simp
    finally show ?thesis
      unfolding retryLoop_retry [where env = env and w = w, OF i Inl] .
  qed
qed

lemma retryLoop_success:
  assumes "\<forall>j<k. isl (outcome (env (calls w + j)))"
    and "outcome (env (calls w + k)) = Inr r"
    and "of_nat (i + k) \<le> retryCount cfg"
  shows "retryLoop cfg env h p key now i le w =
     (Inr \<lparr>game = ascii ''csgo'', result = r\<rparr>,
      w\<lparr>cache := (if cacheTime cfg > 0
                   then (cache w)(key \<mapsto> \<lparr>timestamp = now, data = \<lparr>game = ascii ''csgo'', result = r\<rparr>\<rparr>)
                   else cache w),
        clock := clock w + spent env (calls w) k,
        calls := calls w + k + 1,
        trace := trace w @ concat (replicate k [Query h p (timeout cfg), Sleep 1000])
                 @ [Query h p (timeout cfg)]\<rparr>)"
  using assms
proof (induction k arbitrary: i le w)
  case 0
  then show ?case by (simp add: retryLoop_return)
next
  case (Suc k)
  from Suc.prems(1) obtain m where m: "outcome (env (calls w)) = Inl m"
    by (metis add.right_neutral isl_def zero_less_Suc)
  let ?w2 = "sleep 1000 (snd (gamedigQuery cfg env h p w))"
  have "(of_nat i :: rat) < of_nat (i + Suc k)" by simp
  with Suc.prems(3) have i: "of_nat i < retryCount cfg" "of_nat i \<le> retryCount cfg"
    by simp_all
  have c2: "calls ?w2 = Suc (calls w)" by (simp add: gamedigQuery_def sleep_def)
  have step: "retryLoop cfg env h p key now i le w
                = retryLoop cfg env h p key now (Suc i) (Some m) ?w2"
    using i by (simp add: retryLoop_retry [where env = env and w = w, OF i(2) m])
  have a: "\<forall>j<k. isl (outcome (env (calls ?w2 + j)))"
    using Suc.prems(1) c2 by auto
  have b: "outcome (env (calls ?w2 + k)) = Inr r"
    using Suc.prems(2) c2 by simp
  have c: "of_nat (Suc i + k) \<le> retryCount cfg" using Suc.prems(3) by simp
  show ?case
    unfolding step Suc.IH [OF a b c]
    by (simp add: gamedigQuery_def sleep_def)
qed

text \<open>
  When every attempt fails, the last one has the index \<open>i + n\<close> with
  \<open>i + n \<le> retryCount < i + n + 1\<close>, and a sleep follows it when \<open>i + n < retryCount\<close>.
\<close>

lemma retryLoop_all_fail:
  assumes "\<forall>j\<le>n. isl (outcome (env (calls w + j)))"
    and "outcome (env (calls w + n)) = Inl m"
    and "of_nat (i + n) \<le> retryCount cfg"
    and "\<not> of_nat (Suc (i + n)) \<le> retryCount cfg"
  shows "retryLoop cfg env h p key now i le w =
     (Inl (QueryFailed (if m = [] then unknownError else m)),
      w\<lparr>clock := clock w + spent env (calls w) n
                 + (if of_nat (i + n) < retryCount cfg then 1000 else 0),
        calls := calls w + n + 1,
        trace := trace w @ concat (replicate n [Query h p (timeout cfg), Sleep 1000])
                 @ [Query h p (timeout cfg)]
                 @ (if of_nat (i + n) < retryCount cfg then [Sleep 1000] else [])\<rparr>)"
  using assms
proof (induction n arbitrary: i le w)
  case 0
  have i: "of_nat i \<le> retryCount cfg" "\<not> of_nat (Suc i) \<le> retryCount cfg"
    using "0.prems"(3,4) by simp_all
  have m: "outcome (env (calls w)) = Inl m" using "0.prems"(2) by simp
  show ?case
    unfolding retryLoop_retry [where env = env and w = w, OF i(1) m]
    using i(2) by (simp add: retryLoop_exit gamedigQuery_def sleep_def)
next
  case (Suc n)
  from Suc.prems(1) obtain m' where m': "outcome (env (calls w)) = Inl m'"
    by (metis add.right_neutral isl_def zero_le)
  let ?w2 = "sleep 1000 (snd (gamedigQuery cfg env h p w))"
  have "(of_nat i :: rat) < of_nat (i + Suc n)" by simp
  with Suc.prems(3) have i: "of_nat i < retryCount cfg" "of_nat i \<le> retryCount cfg"
    by simp_all
  have c2: "calls ?w2 = Suc (calls w)" by (simp add: gamedigQuery_def sleep_def)
  have step: "retryLoop cfg env h p key now i le w
                = retryLoop cfg env h p key now (Suc i) (Some m') ?w2"
    using i by (simp add: retryLoop_retry [where env = env and w = w, OF i(2) m'])
  have a: "\<forall>j\<le>n. isl (outcome (env (calls ?w2 + j)))"
    using Suc.prems(1) c2 by auto
  have b: "outcome (env (calls ?w2 + n)) = Inl m"
    using Suc.prems(2) c2 by simp
  have c: "of_nat (Suc i + n) \<le> retryCount cfg" using Suc.prems(3) by simp
  have d: "\<not> of_nat (Suc (Suc i + n)) \<le> retryCount cfg" using Suc.prems(4) by simp
  show ?case
    unfolding step Suc.IH [OF a b c d]
    by (simp add: gamedigQuery_def sleep_def)
qed

lemma first_success_or_all_fail:
  fixes f :: "nat \<Rightarrow> 'a + 'b"
  obtains (success) k r where "k \<le> n" and "\<forall>j<k. isl (f j)" and "f k = Inr r"
  | (failure) m where "\<forall>j\<le>n. isl (f j)" and "f n = Inl m"
proof (cases "\<forall>j\<le>n. isl (f j)")
  case True
  then obtain m where "f n = Inl m" by (metis isl_def le_refl)
  with True show ?thesis by (rule failure)
next
  case False
  then have ex: "\<exists>j. \<not> isl (f j)" by blast
  define k where "k = (LEAST j. \<not> isl (f j))"
  have k: "\<not> isl (f k)" unfolding k_def using ex by (rule LeastI_ex)
  have lt: "\<forall>j<k. isl (f j)" unfolding k_def using not_less_Least by blast
  have "k \<le> n"
  proof (rule ccontr)
    assume "\<not> k \<le> n"
    then have "\<forall>j\<le>n. j < k" by auto
    with lt have "\<forall>j\<le>n. isl (f j)" by blast
    with False show False ..
  qed
  then have kn: "k \<le> n" .
  from k obtain r where r: "f k = Inr r" by (cases "f k") auto
  show ?thesis by (rule success [OF kn lt r])
qed

lemma prefix_first_query:
  "prefix (t @ [q]) (t @ concat (replicate k [q, s]) @ [q] @ u)"
  by (cases k) simp_all

text \<open>For a \<open>retryCount\<close> that is not negative, the index of the last attempt.\<close>

lemma last_attempt:
  assumes "0 \<le> retryCount cfg"
  shows "of_nat (nat \<lfloor>retryCount cfg\<rfloor>) \<le> retryCount cfg"
    and "\<not> of_nat (Suc (nat \<lfloor>retryCount cfg\<rfloor>)) \<le> retryCount cfg"
    and "(of_nat k \<le> retryCount cfg) = (k \<le> nat \<lfloor>retryCount cfg\<rfloor>)"
proof -
  have f: "0 \<le> \<lfloor>retryCount cfg\<rfloor>" using assms by simp
  have n: "nat (\<lfloor>retryCount cfg\<rfloor> + 1) = Suc (nat \<lfloor>retryCount cfg\<rfloor>)"
    by (simp only: Suc_nat_eq_nat_zadd1 [OF f] add.commute)
  show "of_nat (nat \<lfloor>retryCount cfg\<rfloor>) \<le> retryCount cfg"
    unfolding attempt_allowed n by simp
  show "\<not> of_nat (Suc (nat \<lfloor>retryCount cfg\<rfloor>)) \<le> retryCount cfg"
    unfolding attempt_allowed n by simp
  show "(of_nat k \<le> retryCount cfg) = (k \<le> nat \<lfloor>retryCount cfg\<rfloor>)"
    unfolding attempt_allowed n by auto
qed

lemma queryServer_hit:
  assumes "cacheTime cfg > 0" and "cache w (cacheKeyOf h p) = Some c"
    and "clock w - timestamp c < cacheTime cfg"
  shows "queryServer cfg env h p w = (Inr (data c), w)"
  using assms by (simp add: queryServer_def Let_def)

lemma queryServer_miss:
  assumes "cacheTime cfg > 0 \<longrightarrow>
           (\<forall>c. cache w (cacheKeyOf h p) = Some c \<longrightarrow> cacheTime cfg \<le> clock w - timestamp c)"
  shows "queryServer cfg env h p w = retryLoop cfg env h p (cacheKeyOf h p) (clock w) 0 None w"
  using assms by (auto simp add: queryServer_def Let_def split: option.splits)

lemma queryServer_success:
  assumes "cacheTime cfg > 0 \<longrightarrow>
           (\<forall>c. cache w (cacheKeyOf h p) = Some c \<longrightarrow> cacheTime cfg \<le> clock w - timestamp c)"
    and "of_nat k \<le> retryCount cfg"
    and "\<forall>j<k. isl (outcome (env (calls w + j)))"
    and "outcome (env (calls w + k)) = Inr r"
  shows "queryServer cfg env h p w =
     (Inr \<lparr>game = ascii ''csgo'', result = r\<rparr>,
      w\<lparr>cache := (if cacheTime cfg > 0
                   then (cache w)(cacheKeyOf h p \<mapsto>
                          \<lparr>timestamp = clock w, data = \<lparr>game = ascii ''csgo'', result = r\<rparr>\<rparr>)
                   else cache w),
        clock := clock w + spent env (calls w) k,
        calls := calls w + k + 1,
        trace := trace w @ concat (replicate k [Query h p (timeout cfg), Sleep 1000])
                 @ [Query h p (timeout cfg)]\<rparr>)"
  unfolding queryServer_miss [OF assms(1)]
  by (rule retryLoop_success) (use assms in simp_all)

lemma queryServer_all_fail:
  assumes "cacheTime cfg > 0 \<longrightarrow>
           (\<forall>c. cache w (cacheKeyOf h p) = Some c \<longrightarrow> cacheTime cfg \<le> clock w - timestamp c)"
    and "0 \<le> retryCount cfg"
    and "\<forall>j\<le>nat \<lfloor>retryCount cfg\<rfloor>. isl (outcome (env (calls w + j)))"
    and "outcome (env (calls w + nat \<lfloor>retryCount cfg\<rfloor>)) = Inl m"
  shows "queryServer cfg env h p w =
     (Inl (QueryFailed (if m = [] then unknownError else m)),
      w\<lparr>clock := clock w + spent env (calls w) (nat \<lfloor>retryCount cfg\<rfloor>)
                 + (if of_nat (nat \<lfloor>retryCount cfg\<rfloor>) < retryCount cfg then 1000 else 0),
        calls := calls w + nat \<lfloor>retryCount cfg\<rfloor> + 1,
        trace := trace w
                 @ concat (replicate (nat \<lfloor>retryCount cfg\<rfloor>) [Query h p (timeout cfg), Sleep 1000])
                 @ [Query h p (timeout cfg)]
                 @ (if of_nat (nat \<lfloor>retryCount cfg\<rfloor>) < retryCount cfg then [Sleep 1000] else [])\<rparr>)"
  unfolding queryServer_miss [OF assms(1)]
  using retryLoop_all_fail [where i = 0 and n = "nat \<lfloor>retryCount cfg\<rfloor>" and env = env and w = w
      and m = m and cfg = cfg, OF assms(3,4)] last_attempt(1,2) [OF assms(2)]
  by simp

lemma queryServer_miss_effects:
  assumes miss: "cacheTime cfg > 0 \<longrightarrow>
           (\<forall>c. cache w (cacheKeyOf h p) = Some c \<longrightarrow> cacheTime cfg \<le> clock w - timestamp c)"
    and nn: "0 \<le> retryCount cfg"
  shows "calls w < calls (snd (queryServer cfg env h p w))"
    and "prefix (trace w @ [Query h p (timeout cfg)]) (trace (snd (queryServer cfg env h p w)))"
    and "cacheTime cfg > 0 \<Longrightarrow> fst (queryServer cfg env h p w) = Inr d
          \<Longrightarrow> cache (snd (queryServer cfg env h p w)) (cacheKeyOf h p)
                = Some \<lparr>timestamp = clock w, data = d\<rparr>"
proof -
  let ?res = "queryServer cfg env h p w"
  let ?q = "Query h p (timeout cfg)"
  have "calls w < calls (snd ?res)
      \<and> (\<exists>k u. trace (snd ?res) = trace w @ concat (replicate k [?q, Sleep 1000]) @ [?q] @ u)
      \<and> (cacheTime cfg > 0 \<longrightarrow> fst ?res = Inr d
            \<longrightarrow> cache (snd ?res) (cacheKeyOf h p) = Some \<lparr>timestamp = clock w, data = d\<rparr>)"
  proof (cases rule: first_success_or_all_fail
      [of "nat \<lfloor>retryCount cfg\<rfloor>" "\<lambda>j. outcome (env (calls w + j))"])
    case (success k r)
    have k: "of_nat k \<le> retryCount cfg" using success(1) last_attempt(3) [OF nn] by simp
    have "\<exists>k' u. trace w @ concat (replicate k [?q, Sleep 1000]) @ [?q]
                 = trace w @ concat (replicate k' [?q, Sleep 1000]) @ [?q] @ u"
      by (rule exI [of _ k], rule exI [of _ "[]"]) simp
    then show ?thesis
      unfolding queryServer_success [OF miss k success(2,3)] by auto
  next
    case (failure m)
    show ?thesis
      unfolding queryServer_all_fail [OF miss nn failure] by auto
  qed
  then show "calls w < calls (snd ?res)"
    and "prefix (trace w @ [Query h p (timeout cfg)]) (trace (snd ?res))"
    and "cacheTime cfg > 0 \<Longrightarrow> fst ?res = Inr d
          \<Longrightarrow> cache (snd ?res) (cacheKeyOf h p) = Some \<lparr>timestamp = clock w, data = d\<rparr>"
    using prefix_first_query by (simp, metis, simp)
qed

text \<open>
  Claim C2, as stated, fails: the age that the code tests is the one of the stamp, and the
  stamp is the clock at the entry of the call that wrote the entry, not the time of the
  writing. With \<open>cacheTime = 5000\<close>, a first call at time 0 whose query takes 3000
  writes the entry at time 3000 with the stamp 0; a second call at time 5500, which is
  2500 after the writing, calls the query library again.
\<close>

theorem entry_written_2500_ago_is_stale:
  "clock (snd (queryServer (defaultConfig\<lparr>cacheTime := 5000\<rparr>) slowAnswer (ascii ''a'') 27015
                 emptyWorld)) = 3000
   \<and> cache (snd (queryServer (defaultConfig\<lparr>cacheTime := 5000\<rparr>) slowAnswer (ascii ''a'') 27015
                    emptyWorld)) (cacheKeyOf (ascii ''a'') 27015)
       = Some \<lparr>timestamp = 0, data = someData\<rparr>
   \<and> 5500 - 3000 < cacheTime (defaultConfig\<lparr>cacheTime := 5000\<rparr>)
   \<and> calls (snd (queryServer (defaultConfig\<lparr>cacheTime := 5000\<rparr>) slowAnswer (ascii ''a'') 27015
                    emptyWorld)) = 1
   \<and> calls (snd (queryServer (defaultConfig\<lparr>cacheTime := 5000\<rparr>) slowAnswer (ascii ''a'') 27015
        ((snd (queryServer (defaultConfig\<lparr>cacheTime := 5000\<rparr>) slowAnswer (ascii ''a'') 27015
                 emptyWorld))\<lparr>clock := 5500\<rparr>))) = 2"
proof -
  let ?cfg = "defaultConfig\<lparr>cacheTime := 5000\<rparr>"
  let ?w1 = "snd (queryServer ?cfg slowAnswer (ascii ''a'') 27015 emptyWorld)"
  have r: "of_nat 0 \<le> retryCount ?cfg" by (simp add: defaultConfig_def)
  have m1: "cacheTime ?cfg > 0 \<longrightarrow>
      (\<forall>c. cache emptyWorld (cacheKeyOf (ascii ''a'') 27015) = Some c
            \<longrightarrow> cacheTime ?cfg \<le> clock emptyWorld - timestamp c)"
    by (simp add: emptyWorld_def)
  have w1: "clock ?w1 = 3000" "calls ?w1 = 1"
    "cache ?w1 (cacheKeyOf (ascii ''a'') 27015) = Some \<lparr>timestamp = 0, data = someData\<rparr>"
    using queryServer_success [where cfg = ?cfg and w = emptyWorld and h = "ascii ''a''"
        and p = 27015 and k = 0 and env = slowAnswer and r = someResult, OF m1 r]
    by (simp_all add: emptyWorld_def slowAnswer_def defaultConfig_def someData_def)
  have m2: "cacheTime ?cfg > 0 \<longrightarrow>
      (\<forall>c. cache (?w1\<lparr>clock := 5500\<rparr>) (cacheKeyOf (ascii ''a'') 27015) = Some c
            \<longrightarrow> cacheTime ?cfg \<le> clock (?w1\<lparr>clock := 5500\<rparr>) - timestamp c)"
    using w1(3) by (simp add: defaultConfig_def)
  have "calls (snd (queryServer ?cfg slowAnswer (ascii ''a'') 27015 (?w1\<lparr>clock := 5500\<rparr>))) = 2"
    using queryServer_success [where cfg = ?cfg and w = "?w1\<lparr>clock := 5500\<rparr>"
        and h = "ascii ''a''" and p = 27015 and k = 0 and env = slowAnswer and r = someResult,
        OF m2 r] w1(2)
    by (simp add: slowAnswer_def)
  then show ?thesis using w1 by (simp add: defaultConfig_def)
qed

text \<open>
  Claim C2, amended. With \<open>cacheTime > 0\<close>, a call that finds an entry for its
  \<open>host:port\<close> whose stamp, the clock at the entry of the call that wrote it, is less than
  \<open>cacheTime\<close> milliseconds old returns the data of the entry and leaves the world as it
  was: no call to the query library, no sleep, no attempt counted. With the entry absent,
  or its stamp \<open>cacheTime\<close> milliseconds old or more, the query library is called, and
  the first attempt that succeeds, after at most \<open>retryCount\<close> failed ones, makes the
  call return its result and puts it in the cache under the key, in place of the old
  entry, with the clock at the entry of this call as its stamp.
\<close>

theorem cache_ttl:
  assumes "cacheTime cfg > 0" and "0 \<le> retryCount cfg"
  shows "(\<forall>c. cache w (cacheKeyOf h p) = Some c \<and> clock w - timestamp c < cacheTime cfg
            \<longrightarrow> queryServer cfg env h p w = (Inr (data c), w))
       \<and> (cache w (cacheKeyOf h p) = None
            \<or> (\<exists>c. cache w (cacheKeyOf h p) = Some c \<and> cacheTime cfg \<le> clock w - timestamp c)
          \<longrightarrow> calls w < calls (snd (queryServer cfg env h p w))
              \<and> prefix (trace w @ [Query h p (timeout cfg)]) (trace (snd (queryServer cfg env h p w)))
              \<and> (\<forall>k r. of_nat k \<le> retryCount cfg
                         \<and> (\<forall>j<k. isl (outcome (env (calls w + j))))
                         \<and> outcome (env (calls w + k)) = Inr r
                    \<longrightarrow> fst (queryServer cfg env h p w) = Inr \<lparr>game = ascii ''csgo'', result = r\<rparr>
                        \<and> cache (snd (queryServer cfg env h p w)) (cacheKeyOf h p)
                            = Some \<lparr>timestamp = clock w,
                                    data = \<lparr>game = ascii ''csgo'', result = r\<rparr>\<rparr>)
              \<and> (\<forall>d. fst (queryServer cfg env h p w) = Inr d
                    \<longrightarrow> cache (snd (queryServer cfg env h p w)) (cacheKeyOf h p)
                          = Some \<lparr>timestamp = clock w, data = d\<rparr>))"
proof (intro conjI allI impI)
  fix c
  assume "cache w (cacheKeyOf h p) = Some c \<and> clock w - timestamp c < cacheTime cfg"
  then show "queryServer cfg env h p w = (Inr (data c), w)"
    using assms by (simp add: queryServer_hit)
next
  assume "cache w (cacheKeyOf h p) = None
            \<or> (\<exists>c. cache w (cacheKeyOf h p) = Some c \<and> cacheTime cfg \<le> clock w - timestamp c)"
  then have miss: "cacheTime cfg > 0 \<longrightarrow>
           (\<forall>c. cache w (cacheKeyOf h p) = Some c \<longrightarrow> cacheTime cfg \<le> clock w - timestamp c)"
    by auto
  show "calls w < calls (snd (queryServer cfg env h p w))"
    by (rule queryServer_miss_effects(1) [OF miss assms(2)])
  show "prefix (trace w @ [Query h p (timeout cfg)]) (trace (snd (queryServer cfg env h p w)))"
    by (rule queryServer_miss_effects(2) [OF miss assms(2)])
  show "cache (snd (queryServer cfg env h p w)) (cacheKeyOf h p)
          = Some \<lparr>timestamp = clock w, data = d\<rparr>"
    if "fst (queryServer cfg env h p w) = Inr d" for d
    by (rule queryServer_miss_effects(3) [OF miss assms(2,1) that])
  fix k r
  assume a: "of_nat k \<le> retryCount cfg \<and> (\<forall>j<k. isl (outcome (env (calls w + j))))
               \<and> outcome (env (calls w + k)) = Inr r"
  have k: "of_nat k \<le> retryCount cfg" and f: "\<forall>j<k. isl (outcome (env (calls w + j)))"
    and s: "outcome (env (calls w + k)) = Inr r" using a by simp_all
  show "fst (queryServer cfg env h p w) = Inr \<lparr>game = ascii ''csgo'', result = r\<rparr>"
    and "cache (snd (queryServer cfg env h p w)) (cacheKeyOf h p)
           = Some \<lparr>timestamp = clock w, data = \<lparr>game = ascii ''csgo'', result = r\<rparr>\<rparr>"
    unfolding queryServer_success [OF miss k f s] using assms(1) by simp_all
qed

theorem cache_ttl_witness:
  "queryServer (defaultConfig\<lparr>cacheTime := 5000\<rparr>) failsTwice (ascii ''a'') 27015 (cachedWorld 4999)
       = (Inr someData, cachedWorld 4999)
   \<and> fst (queryServer (defaultConfig\<lparr>cacheTime := 5000\<rparr>) answersAtOnce (ascii ''a'') 27015
            (cachedWorld 5000))
       = Inr \<lparr>game = ascii ''csgo'', result = otherResult\<rparr>
   \<and> cache (snd (queryServer (defaultConfig\<lparr>cacheTime := 5000\<rparr>) answersAtOnce (ascii ''a'') 27015
                    (cachedWorld 5000))) (cacheKeyOf (ascii ''a'') 27015)
       = Some \<lparr>timestamp = 5000, data = \<lparr>game = ascii ''csgo'', result = otherResult\<rparr>\<rparr>
   \<and> calls (cachedWorld 5000)
       < calls (snd (queryServer (defaultConfig\<lparr>cacheTime := 5000\<rparr>) answersAtOnce (ascii ''a'') 27015
                      (cachedWorld 5000)))"
proof -
  let ?cfg = "defaultConfig\<lparr>cacheTime := 5000\<rparr>"
  have pos: "0 < cacheTime ?cfg" and nn: "0 \<le> retryCount ?cfg"
    by (simp_all add: defaultConfig_def)
  note hit = cache_ttl [OF pos nn, of "cachedWorld 4999" "ascii ''a''" 27015 failsTwice]
  note stale = cache_ttl [OF pos nn, of "cachedWorld 5000" "ascii ''a''" 27015 answersAtOnce]
  have 1: "queryServer ?cfg failsTwice (ascii ''a'') 27015 (cachedWorld 4999)
             = (Inr someData, cachedWorld 4999)"
    using hit by (simp add: cachedWorld_def)
  have old: "\<exists>c. cache (cachedWorld 5000) (cacheKeyOf (ascii ''a'') 27015) = Some c
                 \<and> cacheTime ?cfg \<le> clock (cachedWorld 5000) - timestamp c"
    by (simp add: cachedWorld_def)
  have k: "of_nat 0 \<le> retryCount ?cfg
           \<and> (\<forall>j<0. isl (outcome (answersAtOnce (calls (cachedWorld 5000) + j))))
           \<and> outcome (answersAtOnce (calls (cachedWorld 5000) + 0)) = Inr otherResult"
    by (simp add: defaultConfig_def answersAtOnce_def)
  from stale old have s:
    "calls (cachedWorld 5000)
       < calls (snd (queryServer ?cfg answersAtOnce (ascii ''a'') 27015 (cachedWorld 5000)))"
    "\<forall>k r. of_nat k \<le> retryCount ?cfg
            \<and> (\<forall>j<k. isl (outcome (answersAtOnce (calls (cachedWorld 5000) + j))))
            \<and> outcome (answersAtOnce (calls (cachedWorld 5000) + k)) = Inr r
          \<longrightarrow> fst (queryServer ?cfg answersAtOnce (ascii ''a'') 27015 (cachedWorld 5000))
                = Inr \<lparr>game = ascii ''csgo'', result = r\<rparr>
              \<and> cache (snd (queryServer ?cfg answersAtOnce (ascii ''a'') 27015 (cachedWorld 5000)))
                  (cacheKeyOf (ascii ''a'') 27015)
                = Some \<lparr>timestamp = clock (cachedWorld 5000),
                        data = \<lparr>game = ascii ''csgo'', result = r\<rparr>\<rparr>"
    by blast+
  from s(2) [rule_format, OF k] s(1) 1 show ?thesis
    by (simp add: cachedWorld_def)
qed

text \<open>
  Claim C3. On a cache miss with \<open>retryCount = r\<close>, not negative, the query library is
  called at most \<open>r + 1\<close> times. When the first \<open>k \<le> r\<close> calls fail and the next
  succeeds, the call returns that result after exactly \<open>k + 1\<close> calls, with a sleep of
  1000 after each failed one and nothing after the successful one. When every call fails,
  there are as many calls as whole numbers from 0 to \<open>r\<close>, which is \<open>r + 1\<close> for a whole
  \<open>r\<close>, with a sleep of 1000 between each failed call and the next, and the call fails
  with \<open>QueryFailed\<close>, whose message ends with the message of the last error. For an
  \<open>r\<close> that is not whole one more sleep of 1000 follows the last failed call.
\<close>

theorem retry_policy:
  assumes "cacheTime cfg > 0 \<longrightarrow>
           (\<forall>c. cache w (cacheKeyOf h p) = Some c \<longrightarrow> cacheTime cfg \<le> clock w - timestamp c)"
    and "0 \<le> retryCount cfg"
  shows "of_nat (calls (snd (queryServer cfg env h p w)) - calls w) \<le> retryCount cfg + 1
       \<and> (\<forall>k r. of_nat k \<le> retryCount cfg \<and> (\<forall>j<k. isl (outcome (env (calls w + j))))
                  \<and> outcome (env (calls w + k)) = Inr r
            \<longrightarrow> fst (queryServer cfg env h p w) = Inr \<lparr>game = ascii ''csgo'', result = r\<rparr>
                \<and> calls (snd (queryServer cfg env h p w)) = calls w + k + 1
                \<and> trace (snd (queryServer cfg env h p w))
                    = trace w @ concat (replicate k [Query h p (timeout cfg), Sleep 1000])
                      @ [Query h p (timeout cfg)])
       \<and> (\<forall>m. (\<forall>j\<le>nat \<lfloor>retryCount cfg\<rfloor>. isl (outcome (env (calls w + j))))
                \<and> outcome (env (calls w + nat \<lfloor>retryCount cfg\<rfloor>)) = Inl m
            \<longrightarrow> fst (queryServer cfg env h p w)
                  = Inl (QueryFailed (if m = [] then unknownError else m))
                \<and> suffix m (message (QueryFailed (if m = [] then unknownError else m)))
                \<and> calls (snd (queryServer cfg env h p w)) = calls w + nat \<lfloor>retryCount cfg\<rfloor> + 1
                \<and> trace (snd (queryServer cfg env h p w))
                    = trace w
                      @ concat (replicate (nat \<lfloor>retryCount cfg\<rfloor>)
                                  [Query h p (timeout cfg), Sleep 1000])
                      @ [Query h p (timeout cfg)]
                      @ (if of_nat (nat \<lfloor>retryCount cfg\<rfloor>) < retryCount cfg
                         then [Sleep 1000] else []))
       \<and> (\<forall>n. retryCount cfg = of_nat n \<longrightarrow>
              nat \<lfloor>retryCount cfg\<rfloor> = n \<and> \<not> of_nat (nat \<lfloor>retryCount cfg\<rfloor>) < retryCount cfg)"
proof (intro conjI allI impI)
  have "calls (snd (queryServer cfg env h p w)) - calls w \<le> nat (\<lfloor>retryCount cfg\<rfloor> + 1)"
    unfolding queryServer_miss [OF assms(1)]
    using retryLoop_calls_le [of cfg env h p "cacheKeyOf h p" "clock w" 0 None w] by simp
  then have "(of_nat (calls (snd (queryServer cfg env h p w)) - calls w) :: rat)
               \<le> of_nat (nat (\<lfloor>retryCount cfg\<rfloor> + 1))"
    by (simp only: of_nat_le_iff)
  also have "\<dots> = of_int (\<lfloor>retryCount cfg\<rfloor> + 1)"
    using assms(2) by simp
  also have "\<dots> \<le> retryCount cfg + 1"
    by simp
  finally show "of_nat (calls (snd (queryServer cfg env h p w)) - calls w) \<le> retryCount cfg + 1" .
next
  fix k r
  assume a: "of_nat k \<le> retryCount cfg \<and> (\<forall>j<k. isl (outcome (env (calls w + j))))
                  \<and> outcome (env (calls w + k)) = Inr r"
  have k: "of_nat k \<le> retryCount cfg" and f: "\<forall>j<k. isl (outcome (env (calls w + j)))"
    and s: "outcome (env (calls w + k)) = Inr r" using a by simp_all
  show "fst (queryServer cfg env h p w) = Inr \<lparr>game = ascii ''csgo'', result = r\<rparr>"
    and "calls (snd (queryServer cfg env h p w)) = calls w + k + 1"
    and "trace (snd (queryServer cfg env h p w))
                    = trace w @ concat (replicate k [Query h p (timeout cfg), Sleep 1000])
                      @ [Query h p (timeout cfg)]"
    unfolding queryServer_success [OF assms(1) k f s] by simp_all
next
  fix m
  assume a: "(\<forall>j\<le>nat \<lfloor>retryCount cfg\<rfloor>. isl (outcome (env (calls w + j))))
                \<and> outcome (env (calls w + nat \<lfloor>retryCount cfg\<rfloor>)) = Inl m"
  have f: "\<forall>j\<le>nat \<lfloor>retryCount cfg\<rfloor>. isl (outcome (env (calls w + j)))"
    and l: "outcome (env (calls w + nat \<lfloor>retryCount cfg\<rfloor>)) = Inl m" using a by simp_all
  show "fst (queryServer cfg env h p w) = Inl (QueryFailed (if m = [] then unknownError else m))"
    and "calls (snd (queryServer cfg env h p w)) = calls w + nat \<lfloor>retryCount cfg\<rfloor> + 1"
    and "trace (snd (queryServer cfg env h p w))
                    = trace w
                      @ concat (replicate (nat \<lfloor>retryCount cfg\<rfloor>)
                                  [Query h p (timeout cfg), Sleep 1000])
                      @ [Query h p (timeout cfg)]
                      @ (if of_nat (nat \<lfloor>retryCount cfg\<rfloor>) < retryCount cfg
                         then [Sleep 1000] else [])"
    unfolding queryServer_all_fail [OF assms(1,2) f l] by simp_all
  show "suffix m (message (QueryFailed (if m = [] then unknownError else m)))"
    by (simp add: suffix_def)
next
  fix n
  assume "retryCount cfg = of_nat n"
  then show "nat \<lfloor>retryCount cfg\<rfloor> = n" and "\<not> of_nat (nat \<lfloor>retryCount cfg\<rfloor>) < retryCount cfg"
    by simp_all
qed

theorem retry_policy_witness:
  "fst (queryServer defaultConfig failsTwice (ascii ''a'') 27015 emptyWorld) = Inr someData
   \<and> calls (snd (queryServer defaultConfig failsTwice (ascii ''a'') 27015 emptyWorld)) = 3
   \<and> trace (snd (queryServer defaultConfig failsTwice (ascii ''a'') 27015 emptyWorld))
       = [Query (ascii ''a'') 27015 5000, Sleep 1000,
          Query (ascii ''a'') 27015 5000, Sleep 1000,
          Query (ascii ''a'') 27015 5000]
   \<and> fst (queryServer (defaultConfig\<lparr>retryCount := 3 / 2\<rparr>) neverAnswers (ascii ''a'') 27015
            emptyWorld) = Inl (QueryFailed (ascii ''timeout''))
   \<and> trace (snd (queryServer (defaultConfig\<lparr>retryCount := 3 / 2\<rparr>) neverAnswers (ascii ''a'') 27015
                    emptyWorld))
       = [Query (ascii ''a'') 27015 5000, Sleep 1000,
          Query (ascii ''a'') 27015 5000, Sleep 1000]
   \<and> trace (snd (queryServer (defaultConfig\<lparr>retryCount := 1\<rparr>) neverAnswers (ascii ''a'') 27015
                    emptyWorld))
       = [Query (ascii ''a'') 27015 5000, Sleep 1000,
          Query (ascii ''a'') 27015 5000]"
proof -
  have miss: "\<And>cfg. cacheTime cfg > 0 \<longrightarrow>
      (\<forall>c. cache emptyWorld (cacheKeyOf (ascii ''a'') 27015) = Some c
            \<longrightarrow> cacheTime cfg \<le> clock emptyWorld - timestamp c)"
    by (simp add: emptyWorld_def)
  have nn: "0 \<le> retryCount defaultConfig" "0 \<le> retryCount (defaultConfig\<lparr>retryCount := 3 / 2\<rparr>)"
    "0 \<le> retryCount (defaultConfig\<lparr>retryCount := 1\<rparr>)"
    by (simp_all add: defaultConfig_def)
  have k: "of_nat 2 \<le> retryCount defaultConfig
      \<and> (\<forall>j<2. isl (outcome (failsTwice (calls emptyWorld + j))))
      \<and> outcome (failsTwice (calls emptyWorld + 2)) = Inr someResult"
    by (simp add: defaultConfig_def failsTwice_def emptyWorld_def)
  have "\<lfloor>3 / 2 :: rat\<rfloor> = 1" by (rule floor_unique) simp_all
  then have fl: "nat \<lfloor>retryCount (defaultConfig\<lparr>retryCount := 3 / 2\<rparr>)\<rfloor> = 1"
    "nat \<lfloor>retryCount (defaultConfig\<lparr>retryCount := 1\<rparr>)\<rfloor> = 1"
    by simp_all
  have af: "\<And>n. (\<forall>j\<le>n. isl (outcome (neverAnswers (calls emptyWorld + j))))
      \<and> outcome (neverAnswers (calls emptyWorld + n)) = Inl (ascii ''timeout'')"
    by (simp add: neverAnswers_def)
  note a = retry_policy [OF miss nn(1), of failsTwice]
  note b = retry_policy [OF miss nn(2), of neverAnswers]
  note c = retry_policy [OF miss nn(3), of neverAnswers]
  from a have a2: "\<forall>k r. of_nat k \<le> retryCount defaultConfig
            \<and> (\<forall>j<k. isl (outcome (failsTwice (calls emptyWorld + j))))
            \<and> outcome (failsTwice (calls emptyWorld + k)) = Inr r
          \<longrightarrow> fst (queryServer defaultConfig failsTwice (ascii ''a'') 27015 emptyWorld)
                = Inr \<lparr>game = ascii ''csgo'', result = r\<rparr>
              \<and> calls (snd (queryServer defaultConfig failsTwice (ascii ''a'') 27015 emptyWorld))
                = calls emptyWorld + k + 1
              \<and> trace (snd (queryServer defaultConfig failsTwice (ascii ''a'') 27015 emptyWorld))
                = trace emptyWorld
                  @ concat (replicate k [Query (ascii ''a'') 27015 (timeout defaultConfig), Sleep 1000])
                  @ [Query (ascii ''a'') 27015 (timeout defaultConfig)]"
    by blast
  have 1: "fst (queryServer defaultConfig failsTwice (ascii ''a'') 27015 emptyWorld) = Inr someData
   \<and> calls (snd (queryServer defaultConfig failsTwice (ascii ''a'') 27015 emptyWorld)) = 3
   \<and> trace (snd (queryServer defaultConfig failsTwice (ascii ''a'') 27015 emptyWorld))
       = [Query (ascii ''a'') 27015 5000, Sleep 1000,
          Query (ascii ''a'') 27015 5000, Sleep 1000,
          Query (ascii ''a'') 27015 5000]"
    using a2 [rule_format, OF k]
    by (simp add: someData_def emptyWorld_def defaultConfig_def numeral_2_eq_2)
  from b af [of 1] have 2:
    "fst (queryServer (defaultConfig\<lparr>retryCount := 3 / 2\<rparr>) neverAnswers (ascii ''a'') 27015
            emptyWorld) = Inl (QueryFailed (ascii ''timeout''))
     \<and> trace (snd (queryServer (defaultConfig\<lparr>retryCount := 3 / 2\<rparr>) neverAnswers (ascii ''a'') 27015
                    emptyWorld))
       = [Query (ascii ''a'') 27015 5000, Sleep 1000,
          Query (ascii ''a'') 27015 5000, Sleep 1000]"
    unfolding fl by (simp add: emptyWorld_def defaultConfig_def ascii_def)
  from c af [of 1] have 3:
    "trace (snd (queryServer (defaultConfig\<lparr>retryCount := 1\<rparr>) neverAnswers (ascii ''a'') 27015
                    emptyWorld))
       = [Query (ascii ''a'') 27015 5000, Sleep 1000,
          Query (ascii ''a'') 27015 5000]"
    unfolding fl by (simp add: emptyWorld_def defaultConfig_def)
  show ?thesis using 1 2 3 by (intro conjI) simp_all
qed

text \<open>
  Claim C9. The stamp of the entry that a call stores is the clock at the entry of the call.
  When the call succeeds after \<open>k\<close> failed attempts, the clock at its return is later than
  the stamp by the time of the \<open>k + 1\<close> attempts and of the \<open>k\<close> sleeps of 1000, and a
  later call is served from the cache exactly while less than \<open>cacheTime\<close> has passed
  since the entry of the first call.
\<close>

theorem timestamp_at_entry:
  assumes "cacheTime cfg > 0"
    and "\<forall>c. cache w (cacheKeyOf h p) = Some c \<longrightarrow> cacheTime cfg \<le> clock w - timestamp c"
    and "of_nat k \<le> retryCount cfg"
    and "\<forall>j<k. isl (outcome (env (calls w + j)))"
    and "outcome (env (calls w + k)) = Inr r"
  shows "cache (snd (queryServer cfg env h p w)) (cacheKeyOf h p)
           = Some \<lparr>timestamp = clock w, data = \<lparr>game = ascii ''csgo'', result = r\<rparr>\<rparr>
       \<and> clock (snd (queryServer cfg env h p w))
           = clock w + (\<Sum>j\<le>k. took (env (calls w + j))) + 1000 * int k
       \<and> (\<forall>t env'. t - clock w < cacheTime cfg
            \<longrightarrow> queryServer cfg env' h p ((snd (queryServer cfg env h p w))\<lparr>clock := t\<rparr>)
                  = (Inr \<lparr>game = ascii ''csgo'', result = r\<rparr>,
                     (snd (queryServer cfg env h p w))\<lparr>clock := t\<rparr>))
       \<and> (\<forall>t env'. cacheTime cfg \<le> t - clock w
            \<longrightarrow> calls (snd (queryServer cfg env h p w))
                  < calls (snd (queryServer cfg env' h p ((snd (queryServer cfg env h p w))\<lparr>clock := t\<rparr>))))"
proof -
  have miss: "cacheTime cfg > 0 \<longrightarrow>
           (\<forall>c. cache w (cacheKeyOf h p) = Some c \<longrightarrow> cacheTime cfg \<le> clock w - timestamp c)"
    using assms(2) by simp
  have nn: "0 \<le> retryCount cfg"
  proof -
    have "(0::rat) \<le> of_nat k" by simp
    from this assms(3) show ?thesis by (rule order_trans)
  qed
  let ?d = "\<lparr>game = ascii ''csgo'', result = r\<rparr>"
  let ?w' = "snd (queryServer cfg env h p w)"
  note eq = queryServer_success [OF miss assms(3,4,5)]
  have c: "cache ?w' (cacheKeyOf h p) = Some \<lparr>timestamp = clock w, data = ?d\<rparr>"
    unfolding eq using assms(1) by simp
  have t: "clock ?w' = clock w + (\<Sum>j\<le>k. took (env (calls w + j))) + 1000 * int k"
    unfolding eq by (simp add: spent_sum)
  have hit: "queryServer cfg env' h p (?w'\<lparr>clock := t\<rparr>) = (Inr ?d, ?w'\<lparr>clock := t\<rparr>)"
    if "t - clock w < cacheTime cfg" for t env'
    using queryServer_hit [of cfg "?w'\<lparr>clock := t\<rparr>" h p "\<lparr>timestamp = clock w, data = ?d\<rparr>" env']
      assms(1) c that by simp
  have stale: "calls ?w' < calls (snd (queryServer cfg env' h p (?w'\<lparr>clock := t\<rparr>)))"
    if "cacheTime cfg \<le> t - clock w" for t env'
  proof -
    have "cacheTime cfg > 0 \<longrightarrow> (\<forall>c. cache (?w'\<lparr>clock := t\<rparr>) (cacheKeyOf h p) = Some c
            \<longrightarrow> cacheTime cfg \<le> clock (?w'\<lparr>clock := t\<rparr>) - timestamp c)"
      using c that by auto
    from queryServer_miss_effects(1) [OF this nn, of env'] show ?thesis by simp
  qed
  show ?thesis using c t hit stale by blast
qed

theorem timestamp_at_entry_witness:
  "cache (snd (queryServer defaultConfig failsTwice (ascii ''a'') 27015 emptyWorld))
       (cacheKeyOf (ascii ''a'') 27015) = Some \<lparr>timestamp = 0, data = someData\<rparr>
   \<and> clock (snd (queryServer defaultConfig failsTwice (ascii ''a'') 27015 emptyWorld)) = 12040"
proof -
  have a: "cacheTime defaultConfig > 0" by (simp add: defaultConfig_def)
  have b: "\<forall>c. cache emptyWorld (cacheKeyOf (ascii ''a'') 27015) = Some c
            \<longrightarrow> cacheTime defaultConfig \<le> clock emptyWorld - timestamp c"
    by (simp add: emptyWorld_def)
  have c: "of_nat 2 \<le> retryCount defaultConfig" by (simp add: defaultConfig_def)
  have d: "\<forall>j<2. isl (outcome (failsTwice (calls emptyWorld + j)))"
    by (simp add: failsTwice_def emptyWorld_def)
  have e: "outcome (failsTwice (calls emptyWorld + 2)) = Inr someResult"
    by (simp add: failsTwice_def emptyWorld_def)
  have s: "(\<Sum>j\<le>2. took (failsTwice (calls emptyWorld + j))) = 10040"
    by (simp add: failsTwice_def emptyWorld_def numeral_2_eq_2)
  from timestamp_at_entry [OF a b c d e] show ?thesis
    by (simp add: s someData_def) (simp add: emptyWorld_def)
qed

section \<open>The batch fan-out: properties\<close>

lemma queryServers_nth:
  "i < length srvs \<Longrightarrow> results (queryServers q t0 t1 srvs) ! i = Fulfilled (queryTask q (srvs ! i) i)"
  by (simp add: queryServers_def)

lemma queryTask_index: "index (queryTask q srv i) = i + 1" "server (queryTask q srv i) = srv"
  by (simp_all add: queryTask_def split: sum.splits)

lemma queryTask_success:
  "success (queryTask q srv i) = (\<exists>a d. parseAddress srv = Inr a \<and> q i (host a) (port a) = Inr d)"
  by (auto simp add: queryTask_def split: sum.splits)

lemma queryTask_parse_failure:
  "parseAddress srv = Inl e \<Longrightarrow>
   queryTask q srv i = \<lparr>index = i + 1, server = srv, success = False,
                         entry_data = None, entry_error = Some (message e)\<rparr>"
  by (simp add: queryTask_def)

lemma queryTask_query_failure:
  "parseAddress srv = Inr a \<Longrightarrow> q i (host a) (port a) = Inl e \<Longrightarrow>
   queryTask q srv i = \<lparr>index = i + 1, server = srv, success = False,
                         entry_data = None, entry_error = Some (message e)\<rparr>"
  by (simp add: queryTask_def)

lemma queryTask_query_success:
  "parseAddress srv = Inr a \<Longrightarrow> q i (host a) (port a) = Inr d \<Longrightarrow>
   queryTask q srv i = \<lparr>index = i + 1, server = srv, success = True,
                         entry_data = Some d, entry_error = None\<rparr>"
  by (simp add: queryTask_def)

text \<open>
  Claim C4. The fan-out returns one entry per address, in the order of the input: the
  entry at position \<open>i\<close> is fulfilled, carries the index \<open>i + 1\<close> and the address at
  \<open>i\<close>, and is made from that address and the outcome of its own query alone. An
  address that fails to parse, or whose query fails, gives a failed entry with the message
  of its error, and an address whose query succeeds gives a successful entry with its
  data, whatever happens to the other addresses. No address gives no entry.
\<close>

theorem fan_out_entries:
  "length (results (queryServers q t0 t1 srvs)) = length srvs
   \<and> (\<forall>i<length srvs.
         results (queryServers q t0 t1 srvs) ! i = Fulfilled (queryTask q (srvs ! i) i)
         \<and> index (queryTask q (srvs ! i) i) = i + 1
         \<and> server (queryTask q (srvs ! i) i) = srvs ! i
         \<and> (\<forall>e. parseAddress (srvs ! i) = Inl e \<longrightarrow>
                queryTask q (srvs ! i) i
                  = \<lparr>index = i + 1, server = srvs ! i, success = False,
                     entry_data = None, entry_error = Some (message e)\<rparr>)
         \<and> (\<forall>a e. parseAddress (srvs ! i) = Inr a \<and> q i (host a) (port a) = Inl e \<longrightarrow>
                queryTask q (srvs ! i) i
                  = \<lparr>index = i + 1, server = srvs ! i, success = False,
                     entry_data = None, entry_error = Some (message e)\<rparr>)
         \<and> (\<forall>a d. parseAddress (srvs ! i) = Inr a \<and> q i (host a) (port a) = Inr d \<longrightarrow>
                queryTask q (srvs ! i) i
                  = \<lparr>index = i + 1, server = srvs ! i, success = True,
                     entry_data = Some d, entry_error = None\<rparr>))
   \<and> results (queryServers q t0 t1 []) = []"
  by (simp add: queryServers_nth queryTask_index queryTask_parse_failure
      queryTask_query_failure queryTask_query_success)
    (simp add: queryServers_def)

lemma example_parses:
  "parseAddress (ascii ''a:1'') = Inr \<lparr>host = ascii ''a'', port = 1\<rparr>"
  "parseAddress (ascii ''x:y:z'') = Inl (InvalidAddress (ascii ''x:y:z''))"
  "parseAddress (ascii ''b:2'') = Inr \<lparr>host = ascii ''b'', port = 2\<rparr>"
  "parseAddress (ascii ''c'') = Inr \<lparr>host = ascii ''c'', port = 27015\<rparr>"
  by (simp_all add: parse_eval)

theorem fan_out_entries_witness:
  "results (queryServers failsForB 0 7 [ascii ''a:1'', ascii ''x:y:z'', ascii ''b:2'', ascii ''c''])
     = [Fulfilled \<lparr>index = 1, server = ascii ''a:1'', success = True,
                    entry_data = Some someData, entry_error = None\<rparr>,
        Fulfilled \<lparr>index = 2, server = ascii ''x:y:z'', success = False,
                    entry_data = None,
                    entry_error = Some (message (InvalidAddress (ascii ''x:y:z'')))\<rparr>,
        Fulfilled \<lparr>index = 3, server = ascii ''b:2'', success = False,
                    entry_data = None,
                    entry_error = Some (message (QueryFailed (ascii ''timeout'')))\<rparr>,
        Fulfilled \<lparr>index = 4, server = ascii ''c'', success = True,
                    entry_data = Some someData, entry_error = None\<rparr>]"
proof -
  let ?srvs = "[ascii ''a:1'', ascii ''x:y:z'', ascii ''b:2'', ascii ''c'']"
  let ?rs = "results (queryServers failsForB 0 7 ?srvs)"
  note f = fan_out_entries [of failsForB 0 7 ?srvs]
  have len: "length ?rs = 4" using f by simp
  have n: "\<forall>i<4. ?rs ! i = Fulfilled (queryTask failsForB (?srvs ! i) i)"
    using f by simp
  have "?rs = [?rs ! 0, ?rs ! 1, ?rs ! 2, ?rs ! 3]"
    using len by (auto simp add: list_eq_iff_nth_eq less_Suc_eq numeral_eq_Suc)
  also have "\<dots> = [Fulfilled (queryTask failsForB (?srvs ! 0) 0),
                     Fulfilled (queryTask failsForB (?srvs ! 1) 1),
                     Fulfilled (queryTask failsForB (?srvs ! 2) 2),
                     Fulfilled (queryTask failsForB (?srvs ! 3) 3)]"
    using n by simp
  finally show ?thesis
    by (simp add: queryTask_def example_parses failsForB_def) (simp add: ascii_def)
qed

section \<open>The scheduler: properties\<close>

lemma oneTimer_cases:
  "oneTimer st =
     ((timers st = [] \<and> scheduleTimer st = None)
      \<or> (\<exists>h ms. timers st = [(h, ms)] \<and> scheduleTimer st = Some h \<and> h < nextHandle st))"
  by (auto simp add: oneTimer_def split: list.splits option.splits)

lemma oneTimer_initial: "oneTimer initial"
  by (simp add: oneTimer_def initial_def)

lemma startScheduleTask_armed:
  assumes "oneTimer st" and "scheduleEnabled cfg" and "0 < scheduleInterval cfg"
  shows "timers (startScheduleTask cfg st) = [(nextHandle st, scheduleInterval cfg * 60 * 1000)]"
    and "scheduleTimer (startScheduleTask cfg st) = Some (nextHandle st)"
    and "nextHandle (startScheduleTask cfg st) = Suc (nextHandle st)"
  using assms
  by (auto simp add: startScheduleTask_def Let_def setInterval_def oneTimer_cases clearInterval_def)

lemma oneTimer_start:
  assumes "oneTimer st" and "scheduleEnabled cfg" and "0 < scheduleInterval cfg"
  shows "oneTimer (startScheduleTask cfg st)"
  unfolding oneTimer_cases [of "startScheduleTask cfg st"]
  using startScheduleTask_armed [OF assms] by simp

lemma stopScheduleTask_cleared:
  assumes "oneTimer st"
  shows "timers (stopScheduleTask st) = []" and "scheduleTimer (stopScheduleTask st) = None"
  using assms by (auto simp add: stopScheduleTask_def oneTimer_cases clearInterval_def)

lemma oneTimer_stop: "oneTimer st \<Longrightarrow> oneTimer (stopScheduleTask st)"
  using stopScheduleTask_cleared [of st] by (simp add: oneTimer_cases)

lemma reachable_oneTimer: "reachable st \<Longrightarrow> oneTimer st"
  by (induction rule: reachable.induct) (simp_all add: oneTimer_initial oneTimer_start oneTimer_stop)

text \<open>With any configuration, also one that is off, the two operations never leave two timers armed.\<close>

lemma at_most_one_start:
  assumes "length (timers st) \<le> 1" and "\<forall>(h, ms) \<in> set (timers st). scheduleTimer st = Some h"
  shows "length (timers (startScheduleTask cfg st)) \<le> 1"
    and "\<forall>(h, ms) \<in> set (timers (startScheduleTask cfg st)). scheduleTimer (startScheduleTask cfg st) = Some h"
proof -
  have c: "timers (case scheduleTimer st of Some h \<Rightarrow> clearInterval h st | None \<Rightarrow> st) = []"
  proof (cases "timers st")
    case Nil
    then show ?thesis by (simp add: clearInterval_def split: option.splits)
  next
    case (Cons t ts)
    with assms(1) have ts: "timers st = [t]" by simp
    with assms(2) have "scheduleTimer st = Some (fst t)" by (cases t) simp
    with ts show ?thesis by (cases t) (simp add: clearInterval_def)
  qed
  show "length (timers (startScheduleTask cfg st)) \<le> 1"
    using c by (simp add: startScheduleTask_def Let_def setInterval_def)
  show "\<forall>(h, ms) \<in> set (timers (startScheduleTask cfg st)). scheduleTimer (startScheduleTask cfg st) = Some h"
    using c by (simp add: startScheduleTask_def Let_def setInterval_def)
qed

lemma at_most_one_stop:
  assumes "length (timers st) \<le> 1" and "\<forall>(h, ms) \<in> set (timers st). scheduleTimer st = Some h"
  shows "timers (stopScheduleTask st) = []"
proof (cases "timers st")
  case Nil
  then show ?thesis by (simp add: stopScheduleTask_def clearInterval_def split: option.splits)
next
  case (Cons t ts)
  with assms(1) have ts: "timers st = [t]" by simp
  with assms(2) have "scheduleTimer st = Some (fst t)" by (cases t) simp
  with ts show ?thesis by (cases t) (simp add: stopScheduleTask_def clearInterval_def)
qed

text \<open>
  Claim C7. In every state that the plugin reaches, at most one timer is armed, and it is
  the one whose handle the plugin holds. Starting arms exactly one timer, also when a
  timer was armed before: the timer of the handle held before is disarmed first, so
  starting twice in a row leaves one timer. Stopping when no timer is armed changes
  nothing, and after a stop no timer is armed and the handle is \<open>null\<close>.
\<close>

theorem one_live_timer:
  assumes "reachable st"
  shows "length (timers st) \<le> 1
       \<and> (\<forall>h. scheduleTimer st = Some h \<longrightarrow> map fst (timers st) = [h])
       \<and> (scheduleTimer st = None \<longrightarrow> timers st = [])
       \<and> (scheduleEnabled cfg \<and> 0 < scheduleInterval cfg \<longrightarrow>
            length (timers (startScheduleTask cfg st)) = 1
            \<and> length (timers (startScheduleTask cfg (startScheduleTask cfg st))) = 1
            \<and> (\<forall>h. scheduleTimer st = Some h \<longrightarrow>
                  h \<notin> fst ` set (timers (startScheduleTask cfg st)))
            \<and> (\<forall>h. scheduleTimer (startScheduleTask cfg st) = Some h \<longrightarrow>
                  h \<notin> fst ` set (timers (startScheduleTask cfg (startScheduleTask cfg st)))))
       \<and> (timers st = [] \<longrightarrow> stopScheduleTask st = st)
       \<and> timers (stopScheduleTask st) = []
       \<and> scheduleTimer (stopScheduleTask st) = None"
proof -
  have o: "oneTimer st" using assms by (rule reachable_oneTimer)
  have 1: "length (timers st) \<le> 1" using o by (auto simp: oneTimer_cases)
  have 2: "(\<forall>h. scheduleTimer st = Some h \<longrightarrow> map fst (timers st) = [h])
       \<and> (scheduleTimer st = None \<longrightarrow> timers st = [])"
    using o by (auto simp: oneTimer_cases)
  have 3: "length (timers (startScheduleTask cfg st)) = 1
            \<and> length (timers (startScheduleTask cfg (startScheduleTask cfg st))) = 1
            \<and> (\<forall>h. scheduleTimer st = Some h \<longrightarrow>
                  h \<notin> fst ` set (timers (startScheduleTask cfg st)))
            \<and> (\<forall>h. scheduleTimer (startScheduleTask cfg st) = Some h \<longrightarrow>
                  h \<notin> fst ` set (timers (startScheduleTask cfg (startScheduleTask cfg st))))"
    if e: "scheduleEnabled cfg \<and> 0 < scheduleInterval cfg"
  proof -
    have e1: "scheduleEnabled cfg" and e2: "0 < scheduleInterval cfg" using e by simp_all
    note a = startScheduleTask_armed [OF o e1 e2]
    have o': "oneTimer (startScheduleTask cfg st)" by (rule oneTimer_start [OF o e1 e2])
    note b = startScheduleTask_armed [OF o' e1 e2]
    have "\<forall>h. scheduleTimer st = Some h \<longrightarrow> h \<noteq> nextHandle st"
      using o by (auto simp: oneTimer_cases)
    then show ?thesis using a b by simp
  qed
  have 4: "stopScheduleTask st = st" if "timers st = []"
    using o that by (auto simp: oneTimer_cases stopScheduleTask_def)
  show ?thesis
    using 1 2 3 4 stopScheduleTask_cleared [OF o] by blast
qed

theorem one_live_timer_witness:
  "reachable (startScheduleTask scheduleConfig initial)
   \<and> timers (startScheduleTask scheduleConfig (startScheduleTask scheduleConfig initial))
       = [(1, 300000)]
   \<and> stopScheduleTask initial = initial
   \<and> timers (stopScheduleTask (startScheduleTask scheduleConfig initial)) = []"
proof -
  have e: "scheduleEnabled scheduleConfig" "0 < scheduleInterval scheduleConfig"
    by (simp_all add: scheduleConfig_def defaultConfig_def)
  have r: "reachable (startScheduleTask scheduleConfig initial)"
    by (rule reachable.start [OF reachable.init e])
  have t: "timers (startScheduleTask scheduleConfig (startScheduleTask scheduleConfig initial))
       = [(1, 300000)]"
    by (simp add: startScheduleTask_def Let_def setInterval_def clearInterval_def initial_def
        scheduleConfig_def defaultConfig_def)
  from one_live_timer [OF r, of scheduleConfig] one_live_timer [OF reachable.init, of scheduleConfig]
  show ?thesis using r t by (simp add: initial_def)
qed

lemma trim_digits: "s \<noteq> [] \<Longrightarrow> list_all isDigit s \<Longrightarrow> trim s = s"
proof -
  assume a: "s \<noteq> []" "list_all isDigit s"
  have nw: "\<And>c. isDigit c \<Longrightarrow> \<not> isWhiteSpace c"
    by (auto simp: isDigit_def isWhiteSpace_def)
  have 1: "dropWhile isWhiteSpace s = s"
    using a nw by (cases s) auto
  have "rev s \<noteq> []" "list_all isDigit (rev s)" using a by simp_all
  then have 2: "dropWhile isWhiteSpace (rev s) = rev s"
    using nw by (cases "rev s") auto
  show ?thesis by (simp add: trim_def 1 2)
qed

lemma toNumber_digits:
  "s \<noteq> [] \<Longrightarrow> list_all isDigit s \<Longrightarrow> toNumber s = Some (int (radixValue 10 s))"
  by (simp add: toNumber_def Let_def trim_digits)

text \<open>The two shapes of the schema, \<open>H:MM\<close> and \<open>HH:MM\<close>, parse to minutes.\<close>

lemma parseTimeToMinutes_HHMM:
  assumes "isDigit a" and "isDigit b" and "isDigit c" and "isDigit d"
  shows "parseTimeToMinutes [a, b, 58, c, d]
           = Some ((int (a - 48) * 10 + int (b - 48)) * 60 + (int (c - 48) * 10 + int (d - 48)))"
    and "parseTimeToMinutes [b, 58, c, d]
           = Some (int (b - 48) * 60 + (int (c - 48) * 10 + int (d - 48)))"
proof -
  have n: "a \<noteq> 58" "b \<noteq> 58" "c \<noteq> 58" "d \<noteq> 58"
    using assms by (auto simp: isDigit_def)
  have v: "\<And>x y. isDigit x \<Longrightarrow> isDigit y \<Longrightarrow> radixValue 10 [x, y] = (x - 48) * 10 + (y - 48)"
    "\<And>x. isDigit x \<Longrightarrow> radixValue 10 [x] = x - 48"
    by (auto simp: radixValue_def digitValue_def isDigit_def)
  show "parseTimeToMinutes [a, b, 58, c, d]
           = Some ((int (a - 48) * 10 + int (b - 48)) * 60 + (int (c - 48) * 10 + int (d - 48)))"
    using n assms by (simp add: parseTimeToMinutes_def toNumber_digits v)
  show "parseTimeToMinutes [b, 58, c, d]
           = Some (int (b - 48) * 60 + (int (c - 48) * 10 + int (d - 48)))"
    using n assms by (simp add: parseTimeToMinutes_def toNumber_digits v)
qed

lemma isWithinScheduleTime_iff:
  assumes "parseTimeToMinutes startTime = Some s" and "parseTimeToMinutes endTime = Some e"
  shows "isWithinScheduleTime startTime endTime h m = (s \<le> h * 60 + m \<and> h * 60 + m \<le> e)"
  using assms by (simp add: isWithinScheduleTime_def Let_def)

lemma executeScheduleTask_runs_iff:
  assumes "parseTimeToMinutes (scheduleStartTime cfg) = Some s"
    and "parseTimeToMinutes (scheduleEndTime cfg) = Some e"
  shows "(executeScheduleTask cfg h m \<noteq> [])
           = (scheduleEnabled cfg \<and> scheduleGroups cfg \<noteq> [] \<and> serverList cfg \<noteq> []
              \<and> s \<le> h * 60 + m \<and> h * 60 + m \<le> e)"
  by (auto simp add: executeScheduleTask_def isWithinScheduleTime_iff [OF assms])

lemma overnight_times:
  "parseTimeToMinutes (ascii ''23:00'') = Some 1380"
  "parseTimeToMinutes (ascii ''08:00'') = Some 480"
  using parseTimeToMinutes_HHMM(1) [of 50 51 48 48] parseTimeToMinutes_HHMM(1) [of 48 56 48 48]
  by (simp_all add: isDigit_def ascii_def)

text \<open>
  Claim C8, as stated, fails when the start of the window is later than its end: with the
  window 23:00 to 08:00, the scheduler on, one group and five servers, the tick at 23:00,
  the minute of the start, does nothing.
\<close>

theorem tick_at_start_of_overnight_window:
  "scheduleEnabled overnightConfig
   \<and> scheduleGroups overnightConfig \<noteq> []
   \<and> serverList overnightConfig \<noteq> []
   \<and> parseTimeToMinutes (scheduleStartTime overnightConfig) = Some (23 * 60 + 0)
   \<and> executeScheduleTask overnightConfig 23 0 = []"
proof -
  have c: "scheduleStartTime overnightConfig = ascii ''23:00''"
    "scheduleEndTime overnightConfig = ascii ''08:00''"
    "scheduleEnabled overnightConfig" "scheduleGroups overnightConfig \<noteq> []"
    "serverList overnightConfig \<noteq> []"
    by (simp_all add: overnightConfig_def scheduleConfig_def defaultConfig_def)
  have "executeScheduleTask overnightConfig 23 0 = []"
    using executeScheduleTask_runs_iff [of overnightConfig 1380 480 23 0]
    by (simp add: c overnight_times)
  then show ?thesis by (simp add: c overnight_times)
qed

text \<open>
  Claim C8, amended. For start and end times that parse to the minutes \<open>s\<close> and \<open>e\<close>:
  a tick whose minute of the day is before \<open>s\<close> or after \<open>e\<close> does nothing; when
  \<open>s \<le> e\<close>, the scheduler is on and both lists are non-empty, a tick at the minute
  \<open>s\<close> or at the minute \<open>e\<close> runs one query task per server and one broadcast per
  group; a tick with the scheduler off or with an empty list does nothing; and when
  \<open>e < s\<close> no tick does anything.
\<close>

theorem schedule_window:
  assumes "parseTimeToMinutes (scheduleStartTime cfg) = Some s"
    and "parseTimeToMinutes (scheduleEndTime cfg) = Some e"
  shows "(h * 60 + m < s \<or> e < h * 60 + m \<longrightarrow> executeScheduleTask cfg h m = [])
       \<and> (scheduleEnabled cfg \<and> scheduleGroups cfg \<noteq> [] \<and> serverList cfg \<noteq> []
            \<and> s \<le> e \<and> (h * 60 + m = s \<or> h * 60 + m = e)
          \<longrightarrow> executeScheduleTask cfg h m
                = map QueryTask (serverList cfg)
                  @ map (\<lambda>groupId. Broadcast (ascii ''onebot:'' @ groupId)) (scheduleGroups cfg)
              \<and> executeScheduleTask cfg h m \<noteq> [])
       \<and> (\<not> scheduleEnabled cfg \<or> scheduleGroups cfg = [] \<or> serverList cfg = []
          \<longrightarrow> executeScheduleTask cfg h m = [])
       \<and> (e < s \<longrightarrow> executeScheduleTask cfg h m = [])"
  using executeScheduleTask_runs_iff [OF assms, of h m]
  by (auto simp add: executeScheduleTask_def isWithinScheduleTime_iff [OF assms])

lemma default_times:
  "parseTimeToMinutes (scheduleStartTime scheduleConfig) = Some 480"
  "parseTimeToMinutes (scheduleEndTime scheduleConfig) = Some 1380"
  by (simp_all add: scheduleConfig_def defaultConfig_def overnight_times)

theorem schedule_window_witness:
  "executeScheduleTask scheduleConfig 7 59 = []
   \<and> executeScheduleTask scheduleConfig 23 1 = []
   \<and> executeScheduleTask scheduleConfig 8 0 \<noteq> []
   \<and> executeScheduleTask scheduleConfig 23 0 \<noteq> []
   \<and> executeScheduleTask defaultConfig 12 0 = []"
proof -
  have d: "parseTimeToMinutes (scheduleStartTime defaultConfig) = Some 480"
    "parseTimeToMinutes (scheduleEndTime defaultConfig) = Some 1380"
    by (simp_all add: defaultConfig_def overnight_times)
  have c: "scheduleEnabled scheduleConfig" "scheduleGroups scheduleConfig \<noteq> []"
    "serverList scheduleConfig \<noteq> []" "\<not> scheduleEnabled defaultConfig"
    by (simp_all add: scheduleConfig_def defaultConfig_def)
  from schedule_window [OF default_times, of 7 59] schedule_window [OF default_times, of 23 1]
    schedule_window [OF default_times, of 8 0] schedule_window [OF default_times, of 23 0]
    schedule_window [OF d, of 12 0]
  show ?thesis using c by simp
qed

section \<open>The player list: properties\<close>

lemma mset_insertBy: "mset (insertBy c x xs) = add_mset x (mset xs)"
  by (induction xs) auto

lemma mset_sortBy: "mset (sortBy c xs) = mset xs"
  by (induction xs) (auto simp: sortBy_def mset_insertBy)

lemma set_insertBy: "set (insertBy c x xs) = insert x (set xs)"
  by (induction xs) auto

lemma length_sortBy: "length (sortBy c xs) = length xs"
  using mset_sortBy [of c xs] by (metis size_mset)

lemma sorted_insertBy:
  assumes total: "\<forall>a b. c a b \<le> 0 \<or> c b a \<le> 0"
    and trans: "\<forall>a b d. c a b \<le> 0 \<and> c b d \<le> 0 \<longrightarrow> c a d \<le> 0"
  shows "sorted_wrt (\<lambda>a b. c a b \<le> 0) xs \<Longrightarrow> sorted_wrt (\<lambda>a b. c a b \<le> 0) (insertBy c x xs)"
proof (induction xs)
  case Nil
  then show ?case by simp
next
  case (Cons y ys)
  from Cons.prems have ys: "sorted_wrt (\<lambda>a b. c a b \<le> 0) ys"
    and y: "\<forall>z\<in>set ys. c y z \<le> 0" by simp_all
  show ?case
  proof (cases "c x y \<le> 0")
    case True
    have "c x z \<le> 0" if "z \<in> set ys" for z
    proof -
      from y that have "c y z \<le> 0" by simp
      with True trans show ?thesis by blast
    qed
    with True ys y show ?thesis by simp
  next
    case False
    then have yx: "c y x \<le> 0" using total by blast
    have "sorted_wrt (\<lambda>a b. c a b \<le> 0) (insertBy c x ys)" by (rule Cons.IH [OF ys])
    with False yx y show ?thesis by (simp add: set_insertBy)
  qed
qed

lemma sorted_sortBy:
  assumes "\<forall>a b. c a b \<le> 0 \<or> c b a \<le> 0"
    and "\<forall>a b d. c a b \<le> 0 \<and> c b d \<le> 0 \<longrightarrow> c a d \<le> 0"
  shows "sorted_wrt (\<lambda>a b. c a b \<le> 0) (sortBy c xs)"
  by (induction xs) (simp_all add: sortBy_def sorted_insertBy [OF assms])

lemma trim_no_white_space:
  assumes "s \<noteq> []" and "\<not> isWhiteSpace (hd s)" and "\<not> isWhiteSpace (last s)"
  shows "trim s = s"
proof -
  have 1: "dropWhile isWhiteSpace s = s" using assms(1,2) by (cases s) auto
  have "rev s \<noteq> []" "\<not> isWhiteSpace (hd (rev s))"
    using assms(1,3) by (simp_all add: hd_rev)
  then have 2: "dropWhile isWhiteSpace (rev s) = rev s" by (cases "rev s") auto
  show ?thesis by (simp add: trim_def 1 2)
qed

lemma trim_header_more:
  "trim (playersHeaderPrefix @ x @ morePrefix @ y @ moreSuffix)
     = playersHeaderPrefix @ x @ morePrefix @ y @ moreSuffix"
  by (rule trim_no_white_space)
    (simp_all add: playersHeaderPrefix_def moreSuffix_def isWhiteSpace_def)

lemma playerLine_eq:
  "playerLine = (\<lambda>pl i. decimal (i + 1) @ ascii ''. '' @ cleanName (name pl) @ [10])"
  by (intro ext) (simp add: playerLine_def)



text \<open>With an end that is not negative, \<open>slice\<close> keeps as many elements as its whole part.\<close>

lemma slice0_take: "0 \<le> m \<Longrightarrow> slice0 m xs = take (nat \<lfloor>m\<rfloor>) xs"
proof -
  assume m: "0 \<le> m"
  then have f: "0 \<le> \<lfloor>m\<rfloor>" by simp
  have "take (nat (min \<lfloor>m\<rfloor> (int (length xs)))) xs = take (nat \<lfloor>m\<rfloor>) xs"
  proof (cases "\<lfloor>m\<rfloor> \<le> int (length xs)")
    case True
    then show ?thesis by (simp add: min_def)
  next
    case False
    then have "length xs \<le> nat \<lfloor>m\<rfloor>" by linarith
    with False show ?thesis by (simp add: min_def)
  qed
  with m f show ?thesis
    by (simp add: slice0_def toIntegerOrInfinity_def Let_def del: zero_le_floor)
qed

lemma showNumber_whole: "showNumber showFraction (of_nat k) = decimal k"
  by (simp add: showNumber_def showInt_def)

lemma shown_at_most:
  assumes "0 \<le> (m::rat)"
  shows "of_nat (min a (nat \<lfloor>m\<rfloor>)) \<le> m"
proof -
  have "(of_nat (min a (nat \<lfloor>m\<rfloor>)) :: rat) \<le> of_nat (nat \<lfloor>m\<rfloor>)"
    by simp
  also have "\<dots> = of_int \<lfloor>m\<rfloor>" using assms by simp
  also have "\<dots> \<le> m" by simp
  finally show ?thesis .
qed

lemma formatPlayers_shown:
  assumes total: "\<forall>a b. localeCompare a b \<le> 0 \<or> localeCompare b a \<le> 0"
    and trans: "\<forall>a b d. localeCompare a b \<le> 0 \<and> localeCompare b d \<le> 0 \<longrightarrow> localeCompare a d \<le> 0"
    and nn: "0 \<le> maxPlayers cfg"
    and ne: "ps \<noteq> []"
  shows "\<exists>shown rest.
           mset (shown @ rest) = mset ps
         \<and> sorted_wrt (\<lambda>a b. localeCompare (toLowerCase (cleanName (name a)))
                                 (toLowerCase (cleanName (name b))) \<le> 0) (shown @ rest)
         \<and> length shown = min (length ps) (nat \<lfloor>maxPlayers cfg\<rfloor>)
         \<and> of_nat (length shown) \<le> maxPlayers cfg
         \<and> formatPlayers cfg toLowerCase localeCompare showFraction (Some ps)
             = trim (playersHeaderPrefix @ decimal (length ps) @ playersHeaderSuffix
                     @ concat (map (\<lambda>(pl, i). decimal (i + 1) @ ascii ''. '' @ cleanName (name pl) @ [10])
                                (zip shown [0..<length shown]))
                     @ (if of_nat (length ps) > maxPlayers cfg
                        then morePrefix
                             @ showNumber showFraction (of_nat (length ps) - maxPlayers cfg)
                             @ moreSuffix
                        else []))
         \<and> (of_nat (length ps) > maxPlayers cfg \<longrightarrow>
              formatPlayers cfg toLowerCase localeCompare showFraction (Some ps)
                = playersHeaderPrefix @ decimal (length ps) @ playersHeaderSuffix
                  @ concat (map (\<lambda>(pl, i). decimal (i + 1) @ ascii ''. '' @ cleanName (name pl) @ [10])
                             (zip shown [0..<length shown]))
                  @ morePrefix @ showNumber showFraction (of_nat (length ps) - maxPlayers cfg)
                  @ moreSuffix)
         \<and> (\<forall>n. maxPlayers cfg = of_nat n \<and> n < length ps \<longrightarrow>
              length shown = n \<and> length rest = length ps - n
              \<and> formatPlayers cfg toLowerCase localeCompare showFraction (Some ps)
                  = playersHeaderPrefix @ decimal (length ps) @ playersHeaderSuffix
                    @ concat (map (\<lambda>(pl, i). decimal (i + 1) @ ascii ''. '' @ cleanName (name pl) @ [10])
                               (zip shown [0..<length shown]))
                    @ morePrefix @ decimal (length rest) @ moreSuffix)"
proof -
  let ?c = "comparePlayers toLowerCase localeCompare"
  let ?sorted = "sortBy ?c ps"
  let ?k = "nat \<lfloor>maxPlayers cfg\<rfloor>"
  let ?shown = "take ?k ?sorted"
  let ?rest = "drop ?k ?sorted"
  let ?head = "playersHeaderPrefix @ decimal (length ps) @ playersHeaderSuffix
                  @ concat (map (\<lambda>(pl, i). decimal (i + 1) @ ascii ''. '' @ cleanName (name pl) @ [10])
                             (zip ?shown [0..<length ?shown]))"
  have t: "\<forall>a b. ?c a b \<le> 0 \<or> ?c b a \<le> 0"
    using total by (simp add: comparePlayers_def)
  have tr: "\<forall>a b d. ?c a b \<le> 0 \<and> ?c b d \<le> 0 \<longrightarrow> ?c a d \<le> 0"
    using trans unfolding comparePlayers_def by blast
  have 1: "mset (?shown @ ?rest) = mset ps" by (simp add: mset_sortBy)
  have "sorted_wrt (\<lambda>a b. ?c a b \<le> 0) ?sorted" by (rule sorted_sortBy [OF t tr])
  then have 2: "sorted_wrt (\<lambda>a b. localeCompare (toLowerCase (cleanName (name a)))
                                 (toLowerCase (cleanName (name b))) \<le> 0) (?shown @ ?rest)"
    by (simp add: comparePlayers_def)
  have 3: "length ?shown = min (length ps) ?k"
    by (simp add: length_sortBy)
  have 7: "of_nat (length ?shown) \<le> maxPlayers cfg"
    unfolding 3 by (rule shown_at_most [OF nn])
  have 4: "formatPlayers cfg toLowerCase localeCompare showFraction (Some ps)
             = trim (?head
                     @ (if of_nat (length ps) > maxPlayers cfg
                        then morePrefix
                             @ showNumber showFraction (of_nat (length ps) - maxPlayers cfg)
                             @ moreSuffix
                        else []))"
    using ne by (simp add: formatPlayers_def Let_def playerLine_eq slice0_take [OF nn])
  have 5: "formatPlayers cfg toLowerCase localeCompare showFraction (Some ps)
                = ?head @ morePrefix
                  @ showNumber showFraction (of_nat (length ps) - maxPlayers cfg) @ moreSuffix"
    if "of_nat (length ps) > maxPlayers cfg"
  proof -
    have "trim (playersHeaderPrefix @ (decimal (length ps) @ playersHeaderSuffix
                  @ concat (map (\<lambda>(pl, i). decimal (i + 1) @ ascii ''. '' @ cleanName (name pl) @ [10])
                             (zip ?shown [0..<length ?shown])))
                  @ morePrefix @ showNumber showFraction (of_nat (length ps) - maxPlayers cfg)
                  @ moreSuffix)
          = playersHeaderPrefix @ (decimal (length ps) @ playersHeaderSuffix
                  @ concat (map (\<lambda>(pl, i). decimal (i + 1) @ ascii ''. '' @ cleanName (name pl) @ [10])
                             (zip ?shown [0..<length ?shown])))
                  @ morePrefix @ showNumber showFraction (of_nat (length ps) - maxPlayers cfg)
                  @ moreSuffix"
      by (rule trim_header_more)
    with 4 that show ?thesis by simp
  qed
  have 6: "length ?shown = n \<and> length ?rest = length ps - n
            \<and> formatPlayers cfg toLowerCase localeCompare showFraction (Some ps)
                = ?head @ morePrefix @ decimal (length ?rest) @ moreSuffix"
    if w: "maxPlayers cfg = of_nat n \<and> n < length ps" for n
  proof -
    have m: "maxPlayers cfg = of_nat n" and lt: "n < length ps" using w by simp_all
    have k: "?k = n" using m by simp
    have gt: "of_nat (length ps) > maxPlayers cfg" using m lt by simp
    have d: "of_nat (length ps) - maxPlayers cfg = of_nat (length ps - n)"
      using m lt by simp
    have r: "length ?rest = length ps - n" using k by (simp add: length_sortBy)
    have s: "length ?shown = n" using k lt by (simp add: length_sortBy)
    show ?thesis using 5 [OF gt] r s by (simp only: d showNumber_whole)
  qed
  have 8: "of_nat (length ps) > maxPlayers cfg \<longrightarrow>
      formatPlayers cfg toLowerCase localeCompare showFraction (Some ps)
        = ?head @ morePrefix
          @ showNumber showFraction (of_nat (length ps) - maxPlayers cfg) @ moreSuffix"
    by (rule impI, rule 5)
  have 9: "\<forall>n. maxPlayers cfg = of_nat n \<and> n < length ps \<longrightarrow>
      length ?shown = n \<and> length ?rest = length ps - n
      \<and> formatPlayers cfg toLowerCase localeCompare showFraction (Some ps)
          = ?head @ morePrefix @ decimal (length ?rest) @ moreSuffix"
    by (intro allI impI, rule 6)
  show ?thesis
    by (rule exI [of _ ?shown], rule exI [of _ ?rest]) (intro conjI 1 2 3 7 4 [unfolded append_assoc] 8 [unfolded append_assoc]
        9 [unfolded append_assoc])
qed










text \<open>The case of the spec: 25 players and 20 shown.\<close>

lemma formatPlayers_25_of_20:
  assumes "\<forall>a b. localeCompare a b \<le> 0 \<or> localeCompare b a \<le> 0"
    and "\<forall>a b d. localeCompare a b \<le> 0 \<and> localeCompare b d \<le> 0 \<longrightarrow> localeCompare a d \<le> 0"
    and "length ps = 25" and "maxPlayers cfg = 20"
  shows "\<exists>shown. length shown = 20 \<and> set shown \<subseteq> set ps
         \<and> formatPlayers cfg toLowerCase localeCompare showFraction (Some ps)
             = playersHeaderPrefix @ ascii ''25'' @ playersHeaderSuffix
               @ concat (map (\<lambda>(pl, i). decimal (i + 1) @ ascii ''. '' @ cleanName (name pl) @ [10])
                          (zip shown [0..<20]))
               @ morePrefix @ ascii ''5'' @ moreSuffix"
proof -
  have ne: "ps \<noteq> []" using assms(3) by auto
  have nn: "0 \<le> maxPlayers cfg" using assms(4) by simp
  have w: "maxPlayers cfg = of_nat 20 \<and> 20 < length ps" using assms(3,4) by simp
  have d: "decimal 25 = ascii ''25''" "decimal 5 = ascii ''5''"
    by (simp_all add: decimal.simps ascii_def)
  from formatPlayers_shown [OF assms(1,2) nn ne, of toLowerCase showFraction]
  obtain shown rest where
    m: "mset (shown @ rest) = mset ps"
    and f: "\<forall>n. maxPlayers cfg = of_nat n \<and> n < length ps \<longrightarrow>
              length shown = n \<and> length rest = length ps - n
              \<and> formatPlayers cfg toLowerCase localeCompare showFraction (Some ps)
                  = playersHeaderPrefix @ decimal (length ps) @ playersHeaderSuffix
                    @ concat (map (\<lambda>(pl, i). decimal (i + 1) @ ascii ''. '' @ cleanName (name pl) @ [10])
                               (zip shown [0..<length shown]))
                    @ morePrefix @ decimal (length rest) @ moreSuffix"
    by blast
  have s: "set shown \<subseteq> set ps"
    using m by (metis set_append set_mset_mset sup_ge1)
  from f [rule_format, OF w] have l20: "length shown = 20" and lr: "length rest = 5"
    and o: "formatPlayers cfg toLowerCase localeCompare showFraction (Some ps)
                  = playersHeaderPrefix @ decimal (length ps) @ playersHeaderSuffix
                    @ concat (map (\<lambda>(pl, i). decimal (i + 1) @ ascii ''. '' @ cleanName (name pl) @ [10])
                               (zip shown [0..<length shown]))
                    @ morePrefix @ decimal (length rest) @ moreSuffix"
    using assms(3) by simp_all
  have "formatPlayers cfg toLowerCase localeCompare showFraction (Some ps)
             = playersHeaderPrefix @ ascii ''25'' @ playersHeaderSuffix
               @ concat (map (\<lambda>(pl, i). decimal (i + 1) @ ascii ''. '' @ cleanName (name pl) @ [10])
                          (zip shown [0..<20]))
               @ morePrefix @ ascii ''5'' @ moreSuffix"
    unfolding o l20 lr assms(3) d ..
  with l20 s show ?thesis by blast
qed



end
